theory Spec2Isabelle
  imports Complex_Main "HOL-Library.Sublist" "HOL-Library.Option_ord" "HOL-Library.Multiset"
begin

section \<open>Data model of the daily soil-moisture comparison (\<open>site_daily\<close>, notebook.ipynb)\<close>

text \<open>
  The notebook cell \<open>site_daily\<close> is a composition of pandas calls on two tables read
  from the intake catalogue (CSV files, \<open>parse_dates: ['DATE_TIME']\<close>,
  \<open>na_values: [-9999]\<close>). The embedding keeps a table the way pandas holds it: an index
  of labels and a list of named columns, each column a list of cells.

  \<^item> A \<open>datetime64[ns]\<close> value is the number of nanoseconds since the epoch, an \<open>int\<close>;
    \<open>NaT\<close> is \<open>None\<close>.
  \<^item> A \<open>float64\<close> cell is a rational number (rounding is not modelled); \<open>NaN\<close> is \<open>None\<close>.
  \<^item> The column \<open>DATE_TIME\<close> of a table is of dtype \<open>datetime64[ns]\<close> (every cell
    parsed or empty) or of dtype \<open>object\<close>: \<open>read_csv\<close> leaves the column as strings
    when some cell did not parse, and also when the file has a header and no rows. A cell
    of an object column is a string that pandas reads as a timestamp (kept as that
    timestamp), any other string, or an empty cell. A table can also be without the
    column; the catalogue does not deliver such a table.
  \<^item> The other columns are the measurement channels, in file order. The pipeline reads
    the cells of the channels ending in \<open>_VWC\<close> only; these are numeric.
\<close>

type_synonym timestamp = int

datatype py_error = KeyError | AttributeError | ValueError | FileNotFoundError

datatype object_cell = Text_date timestamp | Text_other string | Empty_cell

datatype time_column = Datetimes "timestamp option list" | Objects "object_cell list"

record source_table =
  date_time :: "time_column option"
  channels :: "(string \<times> rat option list) list"

record frame =
  index :: "timestamp option list"
  columns :: "(string \<times> rat option list) list"

text \<open>The frame after \<open>reset_index()\<close>: the index has become the column \<open>DATE_TIME\<close>,
  which \<open>dropna(axis=1)\<close> may remove like any other column.\<close>

record wide_frame =
  DATE_TIME_column :: "timestamp option list option"
  sensors :: "(string \<times> rat option list) list"

text \<open>One row of the output of \<open>pd.melt\<close>: the columns \<open>DATE_TIME\<close>, \<open>Sensor\<close>, \<open>VWC\<close>.\<close>

record long_record =
  DATE_TIME :: "timestamp option"
  Sensor :: string
  VWC :: "rat option"

subsection \<open>Calendar dates\<close>

definition ns_per_day :: int where
  "ns_per_day = 86400000000000"

text \<open>\<open>Series.dt.date\<close>: the calendar day of a timestamp, as days since the epoch.\<close>

definition date_of :: "timestamp \<Rightarrow> int" where
  "date_of t = t div ns_per_day"

text \<open>\<open>astype('datetime64[ns]')\<close> on a date: midnight of that day.\<close>

definition midnight :: "int \<Rightarrow> timestamp" where
  "midnight d = d * ns_per_day"

subsection \<open>Column names\<close>

text \<open>\<open>str.endswith\<close>.\<close>

definition endswith :: "string \<Rightarrow> string \<Rightarrow> bool" where
  "endswith s suf = suffix suf s"

text \<open>\<open>subhourly_dataset.columns[subhourly_dataset.columns.str.endswith('_VWC')]\<close>;
  \<open>DATE_TIME\<close> itself does not end in \<open>_VWC\<close>.\<close>

definition vwc_columns :: "source_table \<Rightarrow> string list" where
  "vwc_columns t = filter (\<lambda>n. endswith n ''_VWC'') (map fst (channels t))"

section \<open>The Daily Aggregator: \<open>groupby(DATE_TIME.dt.date)[..._VWC].mean()\<close>\<close>

text \<open>\<open>subhourly_dataset['DATE_TIME'].dt.date\<close>: \<open>KeyError\<close> without the column; the
  accessor \<open>.dt\<close> raises \<open>AttributeError\<close> on every column that is not of a datetime
  dtype, whatever its cells are.\<close>

fun dt_date :: "time_column option \<Rightarrow> py_error + int option list" where
  "dt_date None = Inl KeyError"
| "dt_date (Some (Objects cells)) = Inl AttributeError"
| "dt_date (Some (Datetimes ts)) = Inr (map (map_option date_of) ts)"

text \<open>The non-missing cells of a column.\<close>

fun present :: "'a option list \<Rightarrow> 'a list" where
  "present [] = []"
| "present (None # xs) = present xs"
| "present (Some v # xs) = v # present xs"

text \<open>\<open>mean()\<close> of one group: missing cells are skipped, and a group with no value left
  has a missing mean.\<close>

definition nanmean :: "rat option list \<Rightarrow> rat option" where
  "nanmean xs =
     (let vs = present xs
      in if vs = [] then None else Some (sum_list vs / of_nat (length vs)))"

text \<open>The group keys: the distinct dates in ascending order (\<open>sort=True\<close>); rows whose
  key is missing belong to no group (\<open>dropna=True\<close>).\<close>

definition group_keys :: "int option list \<Rightarrow> int list" where
  "group_keys ks = sort (remdups (present ks))"

text \<open>The cells of one column in the rows of the group with key \<open>d\<close>.\<close>

definition group_cells :: "int option list \<Rightarrow> 'a list \<Rightarrow> int \<Rightarrow> 'a list" where
  "group_cells ks xs d = map snd (filter (\<lambda>(k, x). k = Some d) (zip ks xs))"

definition groupby_mean ::
  "int option list \<Rightarrow> (string \<times> rat option list) list \<Rightarrow> (string \<times> rat option list) list" where
  "groupby_mean ks cols =
     map (\<lambda>(n, xs). (n, map (\<lambda>d. nanmean (group_cells ks xs d)) (group_keys ks))) cols"

text \<open>Lines 574-575: the aggregate, its index converted back to timestamps.\<close>

definition daily_aggregate :: "source_table \<Rightarrow> py_error + frame" where
  "daily_aggregate sub =
     (case dt_date (date_time sub) of
        Inl e \<Rightarrow> Inl e
      | Inr ks \<Rightarrow>
          Inr \<lparr>index = map (\<lambda>d. Some (midnight d)) (group_keys ks),
               columns = groupby_mean ks
                 (filter (\<lambda>(n, xs). endswith n ''_VWC'') (channels sub))\<rparr>)"

section \<open>The Series Aligner\<close>

text \<open>\<open>astype('datetime64[ns]')\<close> on an object column converts cell by cell and raises
  \<open>ValueError\<close> at a string that is not a timestamp; an empty column converts to an
  empty one.\<close>

fun to_datetime :: "object_cell \<Rightarrow> py_error + timestamp option" where
  "to_datetime (Text_date t) = Inr (Some t)"
| "to_datetime (Text_other s) = Inl ValueError"
| "to_datetime Empty_cell = Inr None"

fun astype_datetime :: "object_cell list \<Rightarrow> py_error + timestamp option list" where
  "astype_datetime [] = Inr []"
| "astype_datetime (c # cs) =
     (case to_datetime c of
        Inl e \<Rightarrow> Inl e
      | Inr t \<Rightarrow>
          (case astype_datetime cs of
             Inl e \<Rightarrow> Inl e
           | Inr ts \<Rightarrow> Inr (t # ts)))"

text \<open>Line 568: \<open>daily_dataset.index = daily_dataset.DATE_TIME.astype('datetime64[ns]')\<close>.
  The attribute access raises \<open>AttributeError\<close> without the column. The frame keeps its
  column \<open>DATE_TIME\<close> beside the channels until line 579 selects it away; its name takes
  part in the overlap check of the join.\<close>

definition daily_indexed :: "source_table \<Rightarrow> py_error + frame" where
  "daily_indexed daily =
     (case date_time daily of
        None \<Rightarrow> Inl AttributeError
      | Some (Datetimes ts) \<Rightarrow> Inr \<lparr>index = ts, columns = channels daily\<rparr>
      | Some (Objects cells) \<Rightarrow>
          (case astype_datetime cells of
             Inl e \<Rightarrow> Inl e
           | Inr ts \<Rightarrow> Inr \<lparr>index = ts, columns = channels daily\<rparr>))"

text \<open>\<open>DataFrame.join\<close> with its defaults: a left join on the index, as pandas up to
  2.1 computes it (the kernel of the notebook is Python 3.8). The rows of the left frame
  are taken in their own order when no label is repeated on either side, and when the
  right frame has no rows; otherwise they are taken in ascending order of their labels
  (\<open>NaT\<close> first), rows with the same label in their own order. For each of these rows,
  the positions of the rows of the right frame with the same label; a left row without
  a match is kept once, with no right row.\<close>

definition matches :: "'a list \<Rightarrow> 'a \<Rightarrow> nat list" where
  "matches rs l = filter (\<lambda>j. rs ! j = l) [0..<length rs]"

definition join_order :: "'a::linorder list \<Rightarrow> 'a list \<Rightarrow> nat list" where
  "join_order ls rs =
     (if rs = [] \<or> (distinct ls \<and> distinct rs)
      then [0..<length ls]
      else sort_key (\<lambda>i. ls ! i) [0..<length ls])"

definition join_plan :: "'a::linorder list \<Rightarrow> 'a list \<Rightarrow> (nat \<times> nat option) list" where
  "join_plan ls rs =
     concat (map (\<lambda>i. case matches rs (ls ! i) of
                         [] \<Rightarrow> [(i, None)]
                       | j # js \<Rightarrow> map (\<lambda>j'. (i, Some j')) (j # js))
                 (join_order ls rs))"

definition take_left :: "'a list \<Rightarrow> (nat \<times> nat option) list \<Rightarrow> 'a list" where
  "take_left xs plan = map (\<lambda>(i, jo). xs ! i) plan"

definition take_right :: "'b option list \<Rightarrow> (nat \<times> nat option) list \<Rightarrow> 'b option list" where
  "take_right ys plan = map (\<lambda>(i, jo). case jo of None \<Rightarrow> None | Some j \<Rightarrow> ys ! j) plan"

text \<open>Line 577. Without suffixes, a column name on both sides is a \<open>ValueError\<close>.\<close>

definition join :: "frame \<Rightarrow> frame \<Rightarrow> py_error + frame" where
  "join l r =
     (if \<exists>n \<in> set (''DATE_TIME'' # map fst (columns l)). n \<in> set (map fst (columns r))
      then Inl ValueError
      else let plan = join_plan (index l) (index r)
           in Inr \<lparr>index = take_left (index l) plan,
                   columns = map (\<lambda>(n, xs). (n, take_left xs plan)) (columns l)
                           @ map (\<lambda>(n, ys). (n, take_right ys plan)) (columns r)\<rparr>)"

text \<open>Line 578.\<close>

definition target_columns :: "source_table \<Rightarrow> string list" where
  "target_columns sub = vwc_columns sub @ [''COSMOS_VWC'']"

text \<open>Line 579: \<open>daily_joined[target_columns]\<close>, a \<open>KeyError\<close> for a name that is not a
  column.\<close>

fun getitem ::
  "(string \<times> 'a) list \<Rightarrow> string list \<Rightarrow> py_error + (string \<times> 'a) list" where
  "getitem cs [] = Inr []"
| "getitem cs (n # ns) =
     (case map_of cs n of
        None \<Rightarrow> Inl KeyError
      | Some xs \<Rightarrow>
          (case getitem cs ns of
             Inl e \<Rightarrow> Inl e
           | Inr sel \<Rightarrow> Inr ((n, xs) # sel)))"

text \<open>Lines 580-581: the index becomes the first column, \<open>DATE_TIME\<close>.\<close>

definition reset_index :: "frame \<Rightarrow> wide_frame" where
  "reset_index f = \<lparr>DATE_TIME_column = Some (index f), sensors = columns f\<rparr>"

text \<open>Line 582: \<open>dropna(axis=1, how='all')\<close> keeps the columns with at least one
  non-missing cell.\<close>

definition any_notna :: "'a option list \<Rightarrow> bool" where
  "any_notna xs = (\<exists>x \<in> set xs. x \<noteq> None)"

definition dropna_columns :: "wide_frame \<Rightarrow> wide_frame" where
  "dropna_columns w =
     \<lparr>DATE_TIME_column =
        (case DATE_TIME_column w of
           None \<Rightarrow> None
         | Some ts \<Rightarrow> if any_notna ts then Some ts else None),
      sensors = filter (\<lambda>(n, xs). any_notna xs) (sensors w)\<rparr>"

text \<open>Lines 568-581: the joined table restricted to the target columns, its index
  reset.\<close>

definition daily_joined_reset :: "source_table \<Rightarrow> source_table \<Rightarrow> py_error + wide_frame" where
  "daily_joined_reset daily sub =
     (case daily_indexed daily of
        Inl e \<Rightarrow> Inl e
      | Inr daily_dataset \<Rightarrow>
          (case daily_aggregate sub of
             Inl e \<Rightarrow> Inl e
           | Inr agg \<Rightarrow>
               (case join daily_dataset agg of
                  Inl e \<Rightarrow> Inl e
                | Inr joined \<Rightarrow>
                    (case getitem (columns joined) (target_columns sub) of
                       Inl e \<Rightarrow> Inl e
                     | Inr sel \<Rightarrow> Inr (reset_index (joined\<lparr>columns := sel\<rparr>))))))"

text \<open>Line 582 applied to it: the aligned daily table \<open>daily_joined\<close> that is reshaped.\<close>

definition daily_joined :: "source_table \<Rightarrow> source_table \<Rightarrow> py_error + wide_frame" where
  "daily_joined daily sub =
     (case daily_joined_reset daily sub of
        Inl e \<Rightarrow> Inl e
      | Inr f \<Rightarrow> Inr (dropna_columns f))"

section \<open>The Reshaper: \<open>pd.melt(daily_joined, id_vars='DATE_TIME')\<close>\<close>

text \<open>Line 584. A \<open>KeyError\<close> when \<open>DATE_TIME\<close> is not a column; otherwise the value
  columns one after the other, each with all its rows.\<close>

definition melt :: "wide_frame \<Rightarrow> py_error + long_record list" where
  "melt w =
     (case DATE_TIME_column w of
        None \<Rightarrow> Inl KeyError
      | Some ts \<Rightarrow>
          Inr (concat (map (\<lambda>(n, xs).
                 map (\<lambda>(t, x). \<lparr>DATE_TIME = t, Sensor = n, VWC = x\<rparr>) (zip ts xs))
               (sensors w))))"

definition daily_joined_long ::
  "source_table \<Rightarrow> source_table \<Rightarrow> py_error + long_record list" where
  "daily_joined_long daily sub =
     (case daily_joined daily sub of Inl e \<Rightarrow> Inl e | Inr w \<Rightarrow> melt w)"

section \<open>The selection callback\<close>

text \<open>What outlives a call of \<open>site_daily\<close> is what the catalogue holds for each station
  and resolution: the table of the CSV file and the row index of the frame made from it
  (\<open>None\<close> is the \<open>RangeIndex\<close> of \<open>read_csv\<close>). Line 568 assigns to the index of the
  frame that \<open>read()\<close> has handed out. Whether that frame is the catalogue's own or a
  copy is the catalogue library's business, so the model has both: with \<open>shared\<close> the
  assignment is seen by every later \<open>read()\<close> of the same station. The frames of lines
  574 to 582 are made by the call itself (\<open>groupby\<close>, \<open>join\<close>, the selection and
  \<open>reset_index\<close> return new frames), so the assignment of line 581 and the in-place
  \<open>dropna\<close> of line 582 act on values of the call. The chart made from the long-form
  records is not modelled.\<close>

datatype resolution = Daily | Hourly | SH

record stored_frame =
  content :: source_table
  row_index :: "timestamp option list option"

type_synonym catalog = "string \<times> resolution \<Rightarrow> stored_frame option"

text \<open>\<open>cat.data_siteid(resolution=..., stationid=...).read()\<close>: no file, or a file without
  the column that \<open>parse_dates\<close> names, is an error of the read itself.\<close>

definition read :: "catalog \<Rightarrow> resolution \<Rightarrow> string \<Rightarrow> py_error + stored_frame" where
  "read cat res stationid =
     (case cat (stationid, res) of
        None \<Rightarrow> Inl FileNotFoundError
      | Some fr \<Rightarrow>
          (case date_time (content fr) of
             None \<Rightarrow> Inl ValueError
           | Some c \<Rightarrow> Inr fr))"

definition site_daily ::
  "bool \<Rightarrow> catalog \<Rightarrow> string \<Rightarrow> (py_error + long_record list) \<times> catalog" where
  "site_daily shared cat target_station =
     (case read cat Daily target_station of
        Inl e \<Rightarrow> (Inl e, cat)
      | Inr daily_dataset \<Rightarrow>
          (case daily_indexed (content daily_dataset) of
             Inl e \<Rightarrow> (Inl e, cat)
           | Inr indexed \<Rightarrow>
               (let cat1 = (if shared
                            then cat((target_station, Daily) \<mapsto>
                                   daily_dataset\<lparr>row_index := Some (index indexed)\<rparr>)
                            else cat)
                in case read cat1 SH target_station of
                     Inl e \<Rightarrow> (Inl e, cat1)
                   | Inr subhourly_dataset \<Rightarrow>
                       (daily_joined_long (content daily_dataset)
                          (content subhourly_dataset), cat1))))"

text \<open>A session: the station selected first, then any stations one after the other; the
  catalogue as the last call leaves it.\<close>

definition selections :: "bool \<Rightarrow> catalog \<Rightarrow> string list \<Rightarrow> catalog" where
  "selections shared cat stations = fold (\<lambda>s c. snd (site_daily shared c s)) stations cat"

section \<open>Notions used to state the properties\<close>

text \<open>The cell of a table at a row label and a column name, as \<open>reindex\<close> would give it:
  missing when the table has no such row or column. With repeated labels or names it is
  the first one.\<close>

definition cell ::
  "'k list \<Rightarrow> (string \<times> 'a option list) list \<Rightarrow> 'k \<Rightarrow> string \<Rightarrow> 'a option" where
  "cell idx cols l n =
     (case map_of cols n of
        None \<Rightarrow> None
      | Some xs \<Rightarrow> (case map_of (zip idx xs) l of None \<Rightarrow> None | Some x \<Rightarrow> x))"

text \<open>Two catalogues hold the same tables; the row indexes of their frames may differ.\<close>

definition same_tables :: "catalog \<Rightarrow> catalog \<Rightarrow> bool" where
  "same_tables c1 c2 = (\<forall>k. map_option content (c1 k) = map_option content (c2 k))"

text \<open>The column \<open>DATE_TIME\<close> is unparsable: it has a cell that is not a timestamp.\<close>

definition unparsable :: "time_column \<Rightarrow> bool" where
  "unparsable c =
     (case c of
        Datetimes ts \<Rightarrow> False
      | Objects cells \<Rightarrow> \<exists>s. Text_other s \<in> set cells)"

text \<open>A table has all its columns as long as its index.\<close>

definition rectangular :: "'k list \<Rightarrow> (string \<times> 'a list) list \<Rightarrow> bool" where
  "rectangular idx cols = (\<forall>(n, xs) \<in> set cols. length xs = length idx)"

text \<open>Re-widening, in the words of the specification (the notebook has no such step):
  the wide table read off the long-form records by the pair (timestamp, sensor), the
  value of the first record with that pair, missing when there is none.\<close>

definition rewiden :: "long_record list \<Rightarrow> timestamp option \<Rightarrow> string \<Rightarrow> rat option" where
  "rewiden long t n =
     (case find (\<lambda>r. DATE_TIME r = t \<and> Sensor r = n) long of
        None \<Rightarrow> None
      | Some r \<Rightarrow> VWC r)"

text \<open>A table keyed by day, handed to the aggregator: the aggregator groups by the column
  \<open>DATE_TIME\<close>, so the index is put back as that column first.\<close>

definition daily_keyed_table :: "frame \<Rightarrow> source_table" where
  "daily_keyed_table f = \<lparr>date_time = Some (Datetimes (index f)), channels = columns f\<rparr>"

subsection \<open>Example tables\<close>

text \<open>The scenario of the specification: a native daily table with the days 2014-01-01
  and 2014-01-02 (days 16071 and 16072 of the epoch), and sub-daily readings 20 and 24 on
  2014-01-01 and 25 on 2014-01-03.\<close>

definition native_example :: source_table where
  "native_example =
     \<lparr>date_time = Some (Datetimes [Some (midnight 16071), Some (midnight 16072)]),
      channels = [(''COSMOS_VWC'', [Some 30, Some 32])]\<rparr>"

definition subdaily_example :: source_table where
  "subdaily_example =
     \<lparr>date_time = Some (Datetimes [Some (midnight 16071 + 1800000000000),
                                   Some (midnight 16071 + 3600000000000),
                                   Some (midnight 16073)]),
      channels = [(''PROBE1_VWC'', [Some 20, Some 24, Some 25]),
                  (''TA'', [Some 4, None, Some 5])]\<rparr>"

text \<open>The same native table with no \<open>COSMOS_VWC\<close> value on 2014-01-02.\<close>

definition native_gap_example :: source_table where
  "native_gap_example =
     \<lparr>date_time = Some (Datetimes [Some (midnight 16071), Some (midnight 16072)]),
      channels = [(''COSMOS_VWC'', [Some 30, None])]\<rparr>"

text \<open>A table with one row per day and one \<open>_VWC\<close> channel, the later day first.\<close>

definition unsorted_daily_example :: frame where
  "unsorted_daily_example =
     \<lparr>index = [Some (midnight 16072), Some (midnight 16071)],
      columns = [(''PROBE1_VWC'', [Some 21, Some 22])]\<rparr>"

text \<open>A sub-daily file with a header and no rows: \<open>DATE_TIME\<close> is an empty object
  column.\<close>

definition header_only_example :: source_table where
  "header_only_example =
     \<lparr>date_time = Some (Objects []), channels = [(''PROBE1_VWC'', [])]\<rparr>"

text \<open>A sub-daily file with a cell of \<open>DATE_TIME\<close> that is not a timestamp.\<close>

definition unparsed_example :: source_table where
  "unparsed_example =
     \<lparr>date_time = Some (Objects [Text_date (midnight 16071), Text_other ''yesterday'']),
      channels = [(''PROBE1_VWC'', [Some 20, Some 24])]\<rparr>"

text \<open>A catalogue with two stations; the second has a native table that repeats
  2014-01-01 after 2014-01-02.\<close>

definition native_repeated_example :: source_table where
  "native_repeated_example =
     \<lparr>date_time = Some (Datetimes [Some (midnight 16071), Some (midnight 16072),
                                   Some (midnight 16071)]),
      channels = [(''COSMOS_VWC'', [Some 30, Some 32, Some 31])]\<rparr>"

definition catalog_example :: catalog where
  "catalog_example =
     (\<lambda>k. if k = (''CHIMN'', Daily) then Some \<lparr>content = native_example, row_index = None\<rparr>
          else if k = (''CHIMN'', SH) then Some \<lparr>content = subdaily_example, row_index = None\<rparr>
          else if k = (''SHEEP'', Daily)
            then Some \<lparr>content = native_repeated_example, row_index = None\<rparr>
          else if k = (''SHEEP'', SH) then Some \<lparr>content = subdaily_example, row_index = None\<rparr>
          else None)"

section \<open>Facts about the pandas operations\<close>

subsection \<open>Dates\<close>

lemma date_of_midnight [simp]: "date_of (midnight d) = d"
  by (simp add: date_of_def midnight_def ns_per_day_def)

lemma inj_midnight: "midnight a = midnight b \<longleftrightarrow> a = b"
  by (simp add: midnight_def ns_per_day_def)

subsection \<open>Group keys\<close>

lemma set_present: "set (present xs) = {v. Some v \<in> set xs}"
  by (induction xs rule: present.induct) auto

lemma present_map_Some [simp]: "present (map Some xs) = xs"
  by (induction xs) auto

lemma set_group_keys: "set (group_keys ks) = {d. Some d \<in> set ks}"
  by (simp add: group_keys_def set_present)

lemma distinct_group_keys: "distinct (group_keys ks)"
  by (simp add: group_keys_def)

lemma sorted_group_keys: "sorted (group_keys ks)"
  by (simp add: group_keys_def)

lemma group_keys_sorted_distinct:
  "sorted ds \<Longrightarrow> distinct ds \<Longrightarrow> group_keys (map Some ds) = ds"
  by (simp add: group_keys_def sorted_sort_id)

subsection \<open>The aggregate\<close>

lemma daily_aggregate_Inr:
  "daily_aggregate sub = Inr agg \<longleftrightarrow>
     (\<exists>ts. date_time sub = Some (Datetimes ts) \<and>
        agg = \<lparr>index = map (\<lambda>d. Some (midnight d)) (group_keys (map (map_option date_of) ts)),
               columns = groupby_mean (map (map_option date_of) ts)
                 (filter (\<lambda>(n, xs). endswith n ''_VWC'') (channels sub))\<rparr>)"
proof (cases "date_time sub")
  case None
  then show ?thesis by (simp add: daily_aggregate_def)
next
  case (Some c)
  then show ?thesis by (cases c) (auto simp: daily_aggregate_def)
qed

lemma daily_aggregate_distinct_index:
  assumes "daily_aggregate sub = Inr agg"
  shows "distinct (index agg)"
proof -
  have "inj_on (\<lambda>d. Some (midnight d)) A" for A
    by (rule inj_onI) (simp add: inj_midnight)
  then show ?thesis
    using assms by (auto simp: daily_aggregate_Inr distinct_map distinct_group_keys)
qed

lemma map_fst_groupby_mean: "map fst (groupby_mean ks cols) = map fst cols"
  by (induction cols) (auto simp: groupby_mean_def)

lemma map_fst_filter_names:
  "map fst (filter (\<lambda>(n, xs). P n) cols) = filter P (map fst cols)"
  by (induction cols) auto

lemma daily_aggregate_names:
  "daily_aggregate sub = Inr agg \<Longrightarrow> map fst (columns agg) = vwc_columns sub"
  by (auto simp: daily_aggregate_Inr map_fst_groupby_mean map_fst_filter_names vwc_columns_def)

lemma daily_aggregate_rectangular:
  "daily_aggregate sub = Inr agg \<Longrightarrow> rectangular (index agg) (columns agg)"
  by (auto simp: daily_aggregate_Inr rectangular_def groupby_mean_def)

lemma map_of_filter_names:
  "map_of (filter (\<lambda>(n, xs). P n) cols) n = (if P n then map_of cols n else None)"
  by (induction cols) auto

lemma map_of_groupby_mean:
  "map_of (groupby_mean ks cols) n =
     map_option (\<lambda>xs. map (\<lambda>d. nanmean (group_cells ks xs d)) (group_keys ks)) (map_of cols n)"
  by (induction cols) (auto simp: groupby_mean_def)

lemma map_of_zip_map_map:
  assumes "inj g" "d \<in> set ds"
  shows "map_of (zip (map g ds) (map f ds)) (g d) = Some (f d)"
  using assms(2)
proof (induction ds)
  case Nil
  then show ?case by simp
next
  case (Cons a ds)
  then show ?case using assms(1) by (auto simp: inj_eq)
qed

lemma group_cells_map_key:
  "group_cells (map f ts) xs d = map snd (filter (\<lambda>(t, x). f t = Some d) (zip ts xs))"
proof -
  have "zip (map f ts) xs = map (\<lambda>(t, x). (f t, x)) (zip ts xs)"
    by (simp add: zip_map1)
  then show ?thesis
    by (simp add: group_cells_def filter_map o_def case_prod_unfold)
qed

subsection \<open>The left join on a right index without repeated labels\<close>

lemma filter_eq_upt: "filter (\<lambda>i. i = j) [0..<n] = (if j < n then [j] else [])"
  by (induction n) auto

lemma matches_notin: "l \<notin> set rs \<Longrightarrow> matches rs l = []"
  by (auto simp: matches_def filter_empty_conv)

lemma matches_distinct_nth:
  assumes "distinct rs" "j < length rs"
  shows "matches rs (rs ! j) = [j]"
proof -
  have "filter (\<lambda>i. rs ! i = rs ! j) [0..<length rs] = filter (\<lambda>i. i = j) [0..<length rs]"
    using assms by (intro filter_cong) (auto simp: nth_eq_iff_index_eq)
  then show ?thesis using assms by (simp add: matches_def filter_eq_upt)
qed

lemma matches_distinct_cases:
  assumes "distinct rs"
  shows "(l \<notin> set rs \<and> matches rs l = []) \<or> (\<exists>j < length rs. rs ! j = l \<and> matches rs l = [j])"
proof (cases "l \<in> set rs")
  case True
  then obtain j where "j < length rs" "rs ! j = l" by (auto simp: in_set_conv_nth)
  then show ?thesis using matches_distinct_nth[OF assms, of j] by auto
next
  case False
  then show ?thesis by (simp add: matches_notin)
qed

lemma mset_join_order: "mset (join_order ls rs) = mset [0..<length ls]"
  by (simp add: join_order_def)

lemma length_join_order [simp]: "length (join_order ls rs) = length ls"
  by (simp add: join_order_def)

lemma set_join_order: "set (join_order ls rs) = {0..<length ls}"
  by (simp add: join_order_def)

lemma join_order_distinct:
  "distinct ls \<Longrightarrow> distinct rs \<Longrightarrow> join_order ls rs = [0..<length ls]"
  by (simp add: join_order_def)

lemma mset_map_join_order:
  "mset (map f (join_order ls rs)) = mset (map f [0..<length ls])"
proof -
  have "mset (map f (join_order ls rs)) = image_mset f (mset (join_order ls rs))"
    by simp
  also have "\<dots> = image_mset f (mset [0..<length ls])"
    by (simp only: mset_join_order)
  finally show ?thesis by simp
qed

lemma join_plan_distinct:
  assumes "distinct rs"
  shows "join_plan ls rs =
           map (\<lambda>i. (i, case matches rs (ls ! i) of [] \<Rightarrow> None | j # js \<Rightarrow> Some j))
             (join_order ls rs)"
proof -
  have "(case matches rs l of [] \<Rightarrow> [(i, None)] | j # js \<Rightarrow> map (\<lambda>j'. (i, Some j')) (j # js))
        = [(i, case matches rs l of [] \<Rightarrow> None | j # js \<Rightarrow> Some j)]" for i :: nat and l
    using matches_distinct_cases[OF assms, of l] by auto
  then show ?thesis by (simp add: join_plan_def concat_map_singleton)
qed

lemma take_left_plan:
  "take_left xs (map (\<lambda>i. (i, m i)) order) = map (\<lambda>i. xs ! i) order"
  by (simp add: take_left_def o_def)

lemma length_take_left [simp]: "length (take_left xs plan) = length plan"
  by (simp add: take_left_def)

lemma length_take_right [simp]: "length (take_right ys plan) = length plan"
  by (simp add: take_right_def)

lemma map_of_zip_distinct:
  assumes "distinct rs" "length ys = length rs"
  shows "(case map_of (zip rs ys) l of None \<Rightarrow> None | Some y \<Rightarrow> y)
           = (case matches rs l of [] \<Rightarrow> None | j # js \<Rightarrow> ys ! j)"
proof -
  from matches_distinct_cases[OF assms(1), of l]
  consider "l \<notin> set rs" "matches rs l = []"
    | j where "j < length rs" "rs ! j = l" "matches rs l = [j]" by blast
  then show ?thesis
  proof cases
    case 1
    then have "map_of (zip rs ys) l = None"
      using assms(2) by (simp add: map_of_zip_is_None)
    with 1 show ?thesis by simp
  next
    case 2
    then have "map_of (zip rs ys) l = Some (ys ! j)"
      using map_of_zip_nth[of rs ys j] assms by auto
    with 2 show ?thesis by simp
  qed
qed

lemma take_right_distinct:
  assumes "distinct rs" "length ys = length rs"
  shows "take_right ys (join_plan ls rs)
           = map (\<lambda>l. case map_of (zip rs ys) l of None \<Rightarrow> None | Some y \<Rightarrow> y)
               (map (\<lambda>i. ls ! i) (join_order ls rs))"
proof -
  have "take_right ys (join_plan ls rs)
          = map (\<lambda>i. case matches rs (ls ! i) of [] \<Rightarrow> None | j # js \<Rightarrow> ys ! j)
              (join_order ls rs)"
    by (simp add: join_plan_distinct[OF assms(1)] take_right_def o_def split: list.splits
             cong: list.case_cong)
  also have "\<dots> = map (\<lambda>i. (\<lambda>l. case map_of (zip rs ys) l of None \<Rightarrow> None | Some y \<Rightarrow> y) (ls ! i))
                     (join_order ls rs)"
    by (simp add: map_of_zip_distinct[OF assms])
  also have "\<dots> = map (\<lambda>l. case map_of (zip rs ys) l of None \<Rightarrow> None | Some y \<Rightarrow> y)
                     (map (\<lambda>i. ls ! i) (join_order ls rs))"
    by (simp add: o_def)
  finally show ?thesis .
qed

subsection \<open>Column selection\<close>

lemma getitem_append:
  "getitem cs (as @ bs) =
     (case getitem cs as of Inl e \<Rightarrow> Inl e
      | Inr s1 \<Rightarrow> (case getitem cs bs of Inl e \<Rightarrow> Inl e | Inr s2 \<Rightarrow> Inr (s1 @ s2)))"
  by (induction as) (auto split: option.splits sum.splits)

lemma getitem_Inr:
  "getitem cs ns = Inr sel \<Longrightarrow> map fst sel = ns \<and> (\<forall>(n, xs) \<in> set sel. map_of cs n = Some xs)"
  by (induction ns arbitrary: sel) (auto split: option.splits sum.splits)

subsection \<open>The joined table\<close>

lemma daily_indexed_columns:
  "daily_indexed daily = Inr di \<Longrightarrow> columns di = channels daily"
  by (auto simp: daily_indexed_def split: option.splits time_column.splits sum.splits)

text \<open>The joined table, in terms of the order in which the join takes the rows of the
  native table.\<close>

lemma join_daily_aggregate:
  assumes agg: "daily_aggregate sub = Inr agg"
    and j: "join l agg = Inr joined"
  shows "index joined = map (\<lambda>i. index l ! i) (join_order (index l) (index agg))"
    and "columns joined =
           map (\<lambda>(n, xs). (n, map (\<lambda>i. xs ! i) (join_order (index l) (index agg)))) (columns l)
         @ map (\<lambda>(n, ys). (n, map (\<lambda>l. case map_of (zip (index agg) ys) l of
                                           None \<Rightarrow> None | Some y \<Rightarrow> y) (index joined)))
             (columns agg)"
    and "\<forall>n \<in> set (''DATE_TIME'' # map fst (columns l)). n \<notin> set (vwc_columns sub)"
proof -
  note d = daily_aggregate_distinct_index[OF agg]
  let ?plan = "join_plan (index l) (index agg)"
  let ?order = "join_order (index l) (index agg)"
  from j have ov: "\<not> (\<exists>n \<in> set (''DATE_TIME'' # map fst (columns l)). n \<in> set (map fst (columns agg)))"
    and jo: "joined = \<lparr>index = take_left (index l) ?plan,
                columns = map (\<lambda>(n, xs). (n, take_left xs ?plan)) (columns l)
                        @ map (\<lambda>(n, ys). (n, take_right ys ?plan)) (columns agg)\<rparr>"
    by (auto simp: join_def Let_def split: if_splits)
  show idx: "index joined = map (\<lambda>i. index l ! i) ?order"
    by (simp add: jo join_plan_distinct[OF d] take_left_plan)
  show "\<forall>n \<in> set (''DATE_TIME'' # map fst (columns l)). n \<notin> set (vwc_columns sub)"
    using ov daily_aggregate_names[OF agg] by auto
  have right: "map (\<lambda>(n, ys). (n, take_right ys ?plan)) (columns agg)
      = map (\<lambda>(n, ys). (n, map (\<lambda>l. case map_of (zip (index agg) ys) l of
                                           None \<Rightarrow> None | Some y \<Rightarrow> y) (index joined)))
             (columns agg)"
  proof (rule map_cong[OF refl])
    fix c assume c: "c \<in> set (columns agg)"
    obtain n ys where nys: "c = (n, ys)" by (cases c)
    with c have len: "length ys = length (index agg)"
      using daily_aggregate_rectangular[OF agg] by (auto simp: rectangular_def)
    show "(case c of (n, ys) \<Rightarrow> (n, take_right ys ?plan))
        = (case c of (n, ys) \<Rightarrow> (n, map (\<lambda>l. case map_of (zip (index agg) ys) l of
                                           None \<Rightarrow> None | Some y \<Rightarrow> y) (index joined)))"
      by (simp add: nys take_right_distinct[OF d len] idx)
  qed
  have left: "map (\<lambda>(n, xs). (n, take_left xs ?plan)) (columns l)
      = map (\<lambda>(n, xs). (n, map (\<lambda>i. xs ! i) ?order)) (columns l)"
    by (simp add: join_plan_distinct[OF d] take_left_plan)
  show "columns joined =
           map (\<lambda>(n, xs). (n, map (\<lambda>i. xs ! i) ?order)) (columns l)
         @ map (\<lambda>(n, ys). (n, map (\<lambda>l. case map_of (zip (index agg) ys) l of
                                           None \<Rightarrow> None | Some y \<Rightarrow> y) (index joined)))
             (columns agg)"
  proof -
    have "columns joined = map (\<lambda>(n, xs). (n, take_left xs ?plan)) (columns l)
                        @ map (\<lambda>(n, ys). (n, take_right ys ?plan)) (columns agg)"
      by (simp add: jo)
    then show ?thesis
      by (simp only: left right)
  qed
qed

lemma map_of_map_column:
  "map_of (map (\<lambda>(n, xs). (n, g xs)) cols) n = map_option g (map_of cols n)"
  by (induction cols) auto

lemma map_of_joined_right:
  assumes "n \<notin> set (map fst cs)"
  shows "map_of (map (\<lambda>(n, xs). (n, g xs)) cs @ map (\<lambda>(n, ys). (n, h ys)) rs) n
           = map_option h (map_of rs n)"
proof -
  have "map_of (map (\<lambda>(n, xs). (n, g xs)) cs) n = None"
    using assms by (simp add: map_of_map_column map_of_eq_None_iff)
  then show ?thesis
    by (simp add: map_add_def map_of_map_column split: option.splits)
qed

lemma map_of_joined_left:
  assumes "n \<notin> set (map fst rs)"
  shows "map_of (map (\<lambda>(n, xs). (n, g xs)) cs @ map (\<lambda>(n, ys). (n, h ys)) rs) n
           = map_option g (map_of cs n)"
proof -
  have "map_of (map (\<lambda>(n, ys). (n, h ys)) rs) n = None"
    using assms by (simp add: map_of_map_column map_of_eq_None_iff)
  then show ?thesis
    by (simp add: map_add_def map_of_map_column split: option.splits)
qed

text \<open>What a successful run of lines 568-581 has computed.\<close>

lemma daily_joined_reset_Inr:
  assumes "daily_joined_reset daily sub = Inr f"
  obtains di agg joined where
    "daily_indexed daily = Inr di"
    "daily_aggregate sub = Inr agg"
    "join di agg = Inr joined"
    "getitem (columns joined) (target_columns sub) = Inr (sensors f)"
    "DATE_TIME_column f = Some (index joined)"
proof -
  from assms obtain di where di: "daily_indexed daily = Inr di"
    by (auto simp: daily_joined_reset_def split: sum.splits)
  from assms di obtain agg where agg: "daily_aggregate sub = Inr agg"
    by (auto simp: daily_joined_reset_def split: sum.splits)
  from assms di agg obtain joined where j: "join di agg = Inr joined"
    by (auto simp: daily_joined_reset_def split: sum.splits)
  from assms di agg j obtain sel where
    sel: "getitem (columns joined) (target_columns sub) = Inr sel"
    and f: "f = reset_index (joined\<lparr>columns := sel\<rparr>)"
    by (auto simp: daily_joined_reset_def split: sum.splits)
  from f have "DATE_TIME_column f = Some (index joined)" "sensors f = sel"
    by (simp_all add: reset_index_def)
  with di agg j sel that show thesis by simp
qed

lemma daily_joined_reset_names:
  assumes "daily_joined_reset daily sub = Inr f"
  shows "map fst (sensors f) = target_columns sub"
  using assms by (elim daily_joined_reset_Inr) (simp add: getitem_Inr)

lemma daily_joined_Inr:
  "daily_joined daily sub = Inr w \<longleftrightarrow>
     (\<exists>f. daily_joined_reset daily sub = Inr f \<and> w = dropna_columns f)"
  by (auto simp: daily_joined_def split: sum.splits)

text \<open>The rows of the joined table are the rows of the native table in the order of the
  join.\<close>

lemma daily_joined_reset_rows:
  assumes r: "daily_joined_reset daily sub = Inr f"
    and di: "daily_indexed daily = Inr di"
    and agg: "daily_aggregate sub = Inr agg"
  shows "DATE_TIME_column f
           = Some (map (\<lambda>i. index di ! i) (join_order (index di) (index agg)))"
proof -
  from r obtain di' agg' joined where
    di': "daily_indexed daily = Inr di'"
    and agg': "daily_aggregate sub = Inr agg'"
    and j: "join di' agg' = Inr joined"
    and rows: "DATE_TIME_column f = Some (index joined)"
    by (rule daily_joined_reset_Inr)
  from di di' agg agg' have eq: "di' = di" "agg' = agg" by simp_all
  note j = j[unfolded eq]
  show ?thesis
    by (simp only: rows join_daily_aggregate(1)[OF agg j])
qed

text \<open>The columns taken from the aggregate hold, row by row, the aggregate's cell for
  the label of the row.\<close>

lemma daily_joined_reset_sub_column:
  assumes r: "daily_joined_reset daily sub = Inr f"
    and agg: "daily_aggregate sub = Inr agg"
    and rows: "DATE_TIME_column f = Some rows"
    and c: "(n, xs) \<in> set (sensors f)"
    and n: "n \<in> set (vwc_columns sub)"
  shows "xs = map (\<lambda>l. cell (index agg) (columns agg) l n) rows"
proof -
  from r obtain di agg' joined where
    agg': "daily_aggregate sub = Inr agg'"
    and j: "join di agg' = Inr joined"
    and g: "getitem (columns joined) (target_columns sub) = Inr (sensors f)"
    and rows': "DATE_TIME_column f = Some (index joined)"
    by (rule daily_joined_reset_Inr)
  from agg agg' have eq: "agg' = agg" by simp
  note j = j[unfolded eq]
  from rows rows' have ij: "index joined = rows" by simp
  from g c have m: "map_of (columns joined) n = Some xs"
    using getitem_Inr by fastforce
  from join_daily_aggregate(3)[OF agg j] n have "n \<notin> set (map fst (columns di))"
    by auto
  then have "map_of (columns joined) n
      = map_option (\<lambda>ys. map (\<lambda>l. case map_of (zip (index agg) ys) l of
                                           None \<Rightarrow> None | Some y \<Rightarrow> y) (index joined))
          (map_of (columns agg) n)"
    unfolding join_daily_aggregate(2)[OF agg j] by (rule map_of_joined_right)
  with m show ?thesis
    by (auto simp: cell_def ij)
qed

text \<open>A column of the native table comes out with its cells in the order of the join.\<close>

lemma daily_joined_reset_native_column:
  assumes r: "daily_joined_reset daily sub = Inr f"
    and di: "daily_indexed daily = Inr di"
    and agg: "daily_aggregate sub = Inr agg"
    and cs: "map_of (channels daily) n = Some cs"
    and c: "(n, xs) \<in> set (sensors f)"
  shows "xs = map (\<lambda>i. cs ! i) (join_order (index di) (index agg))"
proof -
  from r obtain di' agg' joined where
    di': "daily_indexed daily = Inr di'"
    and agg': "daily_aggregate sub = Inr agg'"
    and j: "join di' agg' = Inr joined"
    and g: "getitem (columns joined) (target_columns sub) = Inr (sensors f)"
    by (rule daily_joined_reset_Inr)
  from di di' agg agg' have eq: "di' = di" "agg' = agg" by simp_all
  note j = j[unfolded eq]
  note cols = daily_indexed_columns[OF di]
  from g c have m: "map_of (columns joined) n = Some xs"
    using getitem_Inr by fastforce
  from cs have "n \<in> set (map fst (columns di))"
    unfolding cols by (metis map_of_eq_None_iff option.distinct(1) set_map)
  with join_daily_aggregate(3)[OF agg j] have "n \<notin> set (vwc_columns sub)"
    by auto
  then have "n \<notin> set (map fst (columns agg))"
    by (simp add: daily_aggregate_names[OF agg])
  then have "map_of (columns joined) n
      = map_option (\<lambda>xs. map (\<lambda>i. xs ! i) (join_order (index di) (index agg)))
          (map_of (columns di) n)"
    unfolding join_daily_aggregate(2)[OF agg j] by (rule map_of_joined_left)
  with m cs show ?thesis by (simp add: cols)
qed

lemma daily_joined_reset_rectangular:
  assumes r: "daily_joined_reset daily sub = Inr f"
    and ts: "DATE_TIME_column f = Some ts"
  shows "rectangular ts (sensors f)"
proof -
  from r obtain di agg joined where
    ts': "DATE_TIME_column f = Some (index joined)"
    and agg: "daily_aggregate sub = Inr agg"
    and j: "join di agg = Inr joined"
    and g: "getitem (columns joined) (target_columns sub) = Inr (sensors f)"
    by (rule daily_joined_reset_Inr)
  from ts ts' have eq: "index joined = ts" by simp
  have len: "length ts = length (index di)"
    unfolding eq[symmetric] join_daily_aggregate(1)[OF agg j] by simp
  have "length xs = length ts" if "(n, xs) \<in> set (columns joined)" for n xs
    using that unfolding join_daily_aggregate(2)[OF agg j]
    by (auto simp: eq len)
  moreover have "(n, xs) \<in> set (columns joined)" if "(n, xs) \<in> set (sensors f)" for n xs
    using getitem_Inr[OF g] that by (auto dest: map_of_SomeD)
  ultimately show ?thesis by (auto simp: rectangular_def)
qed

section \<open>The Series Aligner: which rows and columns the aligned table has\<close>

lemma cell_notin_index: "l \<notin> set idx \<Longrightarrow> cell idx cols l n = None"
proof -
  assume "l \<notin> set idx"
  then have "map_of (zip idx xs) l = None" for xs :: "'b option list"
    by (auto simp: map_of_eq_None_iff dest: set_zip_leftD)
  then show ?thesis by (simp add: cell_def split: option.splits)
qed

lemma dropna_columns_DATE_TIME:
  "DATE_TIME_column (dropna_columns f) = Some rows \<Longrightarrow> DATE_TIME_column f = Some rows"
  by (auto simp: dropna_columns_def split: option.splits if_splits)

lemma sensors_dropna_columns:
  "sensors (dropna_columns f) = filter (\<lambda>(n, xs). any_notna xs) (sensors f)"
  by (simp add: dropna_columns_def)

lemma mset_rows_join_order:
  "mset (map (\<lambda>i. ts ! i) (join_order ts rs)) = mset ts"
proof -
  have "mset (map (\<lambda>i. ts ! i) (join_order ts rs)) = mset (map (\<lambda>i. ts ! i) [0..<length ts])"
    by (rule mset_map_join_order)
  then show ?thesis by (simp add: map_nth)
qed

text \<open>
  Claim C1, as the code has it. \<open>DataFrame.join\<close> is a left join: the row labels of the
  aligned table are the timestamps of the native daily table, each as often as the
  native table has it, and no other. A column that comes from the sub-daily aggregate
  holds, in each row, the aggregate's cell for the label of that row, and a missing cell
  where the aggregate has no row with that label.
\<close>

theorem aligned_rows_left_join:
  assumes "daily_joined daily sub = Inr w"
    and "DATE_TIME_column w = Some rows"
  shows "\<exists>di agg. daily_indexed daily = Inr di \<and> daily_aggregate sub = Inr agg
       \<and> mset rows = mset (index di)
       \<and> (\<forall>(n, xs) \<in> set (sensors w). n \<in> set (vwc_columns sub) \<longrightarrow>
              xs = map (\<lambda>l. cell (index agg) (columns agg) l n) rows
            \<and> (\<forall>i < length rows. rows ! i \<notin> set (index agg) \<longrightarrow> xs ! i = None))"
proof -
  from assms(1) obtain f where f: "daily_joined_reset daily sub = Inr f"
    and w: "w = dropna_columns f"
    by (auto simp: daily_joined_Inr)
  from assms(2) w have rows: "DATE_TIME_column f = Some rows"
    by (blast intro: dropna_columns_DATE_TIME)
  from f obtain di agg where di: "daily_indexed daily = Inr di"
    and agg: "daily_aggregate sub = Inr agg"
    by (rule daily_joined_reset_Inr)
  from daily_joined_reset_rows[OF f di agg] rows
  have "rows = map (\<lambda>i. index di ! i) (join_order (index di) (index agg))"
    by simp
  then have m: "mset rows = mset (index di)"
    by (simp only: mset_rows_join_order)
  have "xs = map (\<lambda>l. cell (index agg) (columns agg) l n) rows
      \<and> (\<forall>i < length rows. rows ! i \<notin> set (index agg) \<longrightarrow> xs ! i = None)"
    if "(n, xs) \<in> set (sensors w)" "n \<in> set (vwc_columns sub)" for n xs
  proof -
    from that(1) w have "(n, xs) \<in> set (sensors f)"
      by (simp add: sensors_dropna_columns)
    from daily_joined_reset_sub_column[OF f agg rows this that(2)]
    have xs: "xs = map (\<lambda>l. cell (index agg) (columns agg) l n) rows" .
    then show ?thesis by (simp add: cell_notin_index)
  qed
  with di agg m show ?thesis by blast
qed

theorem aligned_rows_left_join_witness:
  "daily_joined native_example subdaily_example =
     Inr \<lparr>DATE_TIME_column = Some [Some (midnight 16071), Some (midnight 16072)],
          sensors = [(''PROBE1_VWC'', [Some 22, None]), (''COSMOS_VWC'', [Some 30, Some 32])]\<rparr>
   \<and> daily_indexed native_example =
       Inr \<lparr>index = [Some (midnight 16071), Some (midnight 16072)],
            columns = [(''COSMOS_VWC'', [Some 30, Some 32])]\<rparr>"
proof -
  let ?w = "\<lparr>DATE_TIME_column = Some [Some (midnight 16071), Some (midnight 16072)],
          sensors = [(''PROBE1_VWC'', [Some 22, None]), (''COSMOS_VWC'', [Some 30, Some 32])]\<rparr>"
  have h: "daily_joined native_example subdaily_example = Inr ?w"
    by code_simp
  have r: "DATE_TIME_column ?w = Some [Some (midnight 16071), Some (midnight 16072)]"
    by simp
  have d: "daily_indexed native_example =
       Inr \<lparr>index = [Some (midnight 16071), Some (midnight 16072)],
            columns = [(''COSMOS_VWC'', [Some 30, Some 32])]\<rparr>"
    by code_simp
  from aligned_rows_left_join[OF h r] obtain di where "daily_indexed native_example = Inr di"
    by (elim exE conjE)
  with h d show ?thesis by simp
qed

text \<open>
  Counterexample to claim C1 as stated, in the scenario of the specification: the
  aggregate has a row for 2014-01-03, the native table has none, and the aligned table
  has the rows 2014-01-01 and 2014-01-02 only.
\<close>

theorem outer_join_counterexample:
  "daily_aggregate subdaily_example =
     Inr \<lparr>index = [Some (midnight 16071), Some (midnight 16073)],
          columns = [(''PROBE1_VWC'', [Some 22, Some 25])]\<rparr>
   \<and> daily_joined native_example subdaily_example =
     Inr \<lparr>DATE_TIME_column = Some [Some (midnight 16071), Some (midnight 16072)],
          sensors = [(''PROBE1_VWC'', [Some 22, None]), (''COSMOS_VWC'', [Some 30, Some 32])]\<rparr>
   \<and> Some (midnight 16073) \<notin> set [Some (midnight 16071), Some (midnight 16072)]"
  by code_simp

lemma zip_nth_upt:
  "length cs = length ts \<Longrightarrow> map (\<lambda>i. (ts ! i, cs ! i)) [0..<length ts] = zip ts cs"
  by (rule nth_equalityI) simp_all

lemma zip_map_same: "zip (map f xs) (map g xs) = map (\<lambda>x. (f x, g x)) xs"
  by (induction xs) auto

lemma any_notna_join_order:
  assumes "length cs = length ts"
  shows "any_notna (map (\<lambda>i. cs ! i) (join_order ts rs)) = any_notna cs"
proof -
  have "set (map (\<lambda>i. cs ! i) (join_order ts rs)) = (\<lambda>i. cs ! i) ` {0..<length cs}"
    by (simp add: set_join_order assms)
  also have "\<dots> = set cs"
    by (auto simp: set_conv_nth)
  finally show ?thesis by (simp only: any_notna_def)
qed

text \<open>
  Claim C10. The join leaves the native channel alone. When the native daily table has
  the column \<open>COSMOS_VWC\<close>, as long as its index, the column \<open>COSMOS_VWC\<close> of the
  aligned table pairs the timestamps with the values exactly as the native table does:
  the pairs (timestamp, value) of the two tables are the same, each as often. When no
  timestamp of the native table is repeated, the aligned table has the native
  timestamps row by row and the native column cell by cell. The column is in the aligned
  table whenever the native column has a value.
\<close>

theorem native_channel_unchanged:
  assumes "daily_joined daily sub = Inr w"
    and "DATE_TIME_column w = Some rows"
    and "daily_indexed daily = Inr di"
    and "map_of (channels daily) ''COSMOS_VWC'' = Some cs"
    and "length cs = length (index di)"
  shows "(\<forall>xs. (''COSMOS_VWC'', xs) \<in> set (sensors w) \<longrightarrow>
            length xs = length rows
          \<and> mset (zip rows xs) = mset (zip (index di) cs)
          \<and> (distinct (index di) \<longrightarrow> rows = index di \<and> xs = cs))
       \<and> (any_notna cs \<longrightarrow> (\<exists>xs. (''COSMOS_VWC'', xs) \<in> set (sensors w)))"
proof -
  from assms(1) obtain f where f: "daily_joined_reset daily sub = Inr f"
    and w: "w = dropna_columns f"
    by (auto simp: daily_joined_Inr)
  from assms(2) w have rows: "DATE_TIME_column f = Some rows"
    by (blast intro: dropna_columns_DATE_TIME)
  from f obtain agg where agg: "daily_aggregate sub = Inr agg"
    by (rule daily_joined_reset_Inr)
  let ?ts = "index di"
  let ?order = "join_order ?ts (index agg)"
  from daily_joined_reset_rows[OF f assms(3) agg] rows
  have r: "rows = map (\<lambda>i. ?ts ! i) ?order"
    by simp
  have native: "xs = map (\<lambda>i. cs ! i) ?order" if "(''COSMOS_VWC'', xs) \<in> set (sensors f)" for xs
    using daily_joined_reset_native_column[OF f assms(3) agg assms(4) that] .
  have pairs: "length xs = length rows
          \<and> mset (zip rows xs) = mset (zip ?ts cs)
          \<and> (distinct ?ts \<longrightarrow> rows = ?ts \<and> xs = cs)"
    if "(''COSMOS_VWC'', xs) \<in> set (sensors f)" for xs
  proof -
    note x = native[OF that]
    have "zip rows xs = map (\<lambda>i. (?ts ! i, cs ! i)) ?order"
      by (simp only: r x zip_map_same)
    then have "mset (zip rows xs) = mset (map (\<lambda>i. (?ts ! i, cs ! i)) [0..<length ?ts])"
      by (simp only: mset_map_join_order)
    then have m: "mset (zip rows xs) = mset (zip ?ts cs)"
      by (simp only: zip_nth_upt[OF assms(5)])
    have "rows = ?ts \<and> xs = cs" if "distinct ?ts"
    proof -
      from that have "?order = [0..<length ?ts]"
        by (rule join_order_distinct) (rule daily_aggregate_distinct_index[OF agg])
      moreover have "map (\<lambda>i. ?ts ! i) [0..<length ?ts] = ?ts"
        by (rule map_nth)
      moreover have "map (\<lambda>i. cs ! i) [0..<length ?ts] = cs"
        unfolding assms(5)[symmetric] by (rule map_nth)
      ultimately show ?thesis
        by (simp only: r x)
    qed
    with m show ?thesis by (simp add: r x)
  qed
  have "''COSMOS_VWC'' \<in> set (map fst (sensors f))"
    by (simp add: daily_joined_reset_names[OF f] target_columns_def)
  then obtain xs where xs: "(''COSMOS_VWC'', xs) \<in> set (sensors f)" by auto
  have "any_notna xs = any_notna cs"
    unfolding native[OF xs] by (rule any_notna_join_order[OF assms(5)])
  with xs have "any_notna cs \<longrightarrow> (\<exists>xs. (''COSMOS_VWC'', xs) \<in> set (sensors w))"
    by (auto simp: w sensors_dropna_columns)
  moreover have "\<forall>xs. (''COSMOS_VWC'', xs) \<in> set (sensors w) \<longrightarrow>
            length xs = length rows
          \<and> mset (zip rows xs) = mset (zip ?ts cs)
          \<and> (distinct ?ts \<longrightarrow> rows = ?ts \<and> xs = cs)"
  proof (intro allI impI)
    fix xs assume "(''COSMOS_VWC'', xs) \<in> set (sensors w)"
    then have "(''COSMOS_VWC'', xs) \<in> set (sensors f)"
      by (simp add: w sensors_dropna_columns)
    then show "length xs = length rows
          \<and> mset (zip rows xs) = mset (zip ?ts cs)
          \<and> (distinct ?ts \<longrightarrow> rows = ?ts \<and> xs = cs)"
      by (rule pairs)
  qed
  ultimately show ?thesis by blast
qed

theorem native_channel_unchanged_witness:
  "daily_joined native_repeated_example subdaily_example =
     Inr \<lparr>DATE_TIME_column =
            Some [Some (midnight 16071), Some (midnight 16071), Some (midnight 16072)],
          sensors = [(''PROBE1_VWC'', [Some 22, Some 22, None]),
                     (''COSMOS_VWC'', [Some 30, Some 31, Some 32])]\<rparr>
   \<and> mset (zip [Some (midnight 16071), Some (midnight 16071), Some (midnight 16072)]
              [Some (30::rat), Some 31, Some 32])
     = mset (zip [Some (midnight 16071), Some (midnight 16072), Some (midnight 16071)]
              [Some 30, Some 32, Some 31])"
proof -
  let ?rows = "[Some (midnight 16071), Some (midnight 16071), Some (midnight 16072)]"
  let ?ts = "[Some (midnight 16071), Some (midnight 16072), Some (midnight 16071)]"
  let ?w = "\<lparr>DATE_TIME_column = Some ?rows,
          sensors = [(''PROBE1_VWC'', [Some 22, Some 22, None]),
                     (''COSMOS_VWC'', [Some (30::rat), Some 31, Some 32])]\<rparr>"
  let ?di = "\<lparr>index = ?ts, columns = [(''COSMOS_VWC'', [Some (30::rat), Some 32, Some 31])]\<rparr>"
  have h: "daily_joined native_repeated_example subdaily_example = Inr ?w"
    by code_simp
  have r: "DATE_TIME_column ?w = Some ?rows"
    by simp
  have d: "daily_indexed native_repeated_example = Inr ?di"
    by code_simp
  have c: "map_of (channels native_repeated_example) ''COSMOS_VWC'' = Some [Some 30, Some 32, Some 31]"
    by (simp add: native_repeated_example_def)
  have l: "length [Some (30::rat), Some 32, Some 31] = length (index ?di)"
    by simp
  have x: "(''COSMOS_VWC'', [Some 30, Some 31, Some 32]) \<in> set (sensors ?w)"
    by simp
  note t = native_channel_unchanged[OF h r d c l, THEN conjunct1, rule_format, OF x]
  from t have "mset (zip ?rows [Some (30::rat), Some 31, Some 32])
          = mset (zip (index ?di) [Some 30, Some 32, Some 31])"
    by (elim conjE)
  then have "mset (zip ?rows [Some (30::rat), Some 31, Some 32])
          = mset (zip ?ts [Some 30, Some 32, Some 31])"
    by (simp only: frame.simps)
  with h show ?thesis by (intro conjI)
qed

lemma names_filter_cells:
  "fst ` set (filter (\<lambda>(n, xs). P xs) cols)
     = fst ` set cols - {n. \<forall>xs. (n, xs) \<in> set cols \<longrightarrow> \<not> P xs}"
  by force

text \<open>
  Claim C4. The sensor columns of the aligned table are target columns, that is, the
  \<open>_VWC\<close> channels of the sub-daily table followed by \<open>COSMOS_VWC\<close>: before
  \<open>dropna\<close> they are exactly these, in this order, and \<open>dropna\<close> removes exactly the
  names whose columns are missing in every row. Every name left ends in \<open>_VWC\<close> or is
  \<open>COSMOS_VWC\<close>.
\<close>

theorem aligned_column_invariant:
  assumes "daily_joined daily sub = Inr w"
  shows "\<exists>f. daily_joined_reset daily sub = Inr f
       \<and> map fst (sensors f) = vwc_columns sub @ [''COSMOS_VWC'']
       \<and> set (map fst (sensors w)) =
           (set (vwc_columns sub) \<union> {''COSMOS_VWC''})
           - {n. \<forall>xs. (n, xs) \<in> set (sensors f) \<longrightarrow> \<not> any_notna xs}
       \<and> (\<forall>n \<in> set (map fst (sensors w)). endswith n ''_VWC'' \<or> n = ''COSMOS_VWC'')"
proof -
  from assms obtain f where f: "daily_joined_reset daily sub = Inr f"
    and w: "w = dropna_columns f"
    by (auto simp: daily_joined_Inr)
  have names: "map fst (sensors f) = vwc_columns sub @ [''COSMOS_VWC'']"
    by (simp add: daily_joined_reset_names[OF f] target_columns_def)
  have "fst ` set (sensors f) = set (map fst (sensors f))"
    by simp
  also have "\<dots> = set (vwc_columns sub @ [''COSMOS_VWC''])"
    by (simp only: names)
  finally have fset: "fst ` set (sensors f) = set (vwc_columns sub) \<union> {''COSMOS_VWC''}"
    by simp
  have "set (map fst (sensors w)) = fst ` set (filter (\<lambda>(n, xs). any_notna xs) (sensors f))"
    by (simp only: w sensors_dropna_columns set_map)
  also have "\<dots> = fst ` set (sensors f)
                   - {n. \<forall>xs. (n, xs) \<in> set (sensors f) \<longrightarrow> \<not> any_notna xs}"
    by (rule names_filter_cells)
  finally have kept: "set (map fst (sensors w)) =
           (set (vwc_columns sub) \<union> {''COSMOS_VWC''})
           - {n. \<forall>xs. (n, xs) \<in> set (sensors f) \<longrightarrow> \<not> any_notna xs}"
    unfolding fset .
  have "endswith n ''_VWC'' \<or> n = ''COSMOS_VWC''" if "n \<in> set (map fst (sensors w))" for n
    using that unfolding kept by (auto simp: vwc_columns_def)
  with f names kept show ?thesis by blast
qed

theorem aligned_column_invariant_witness:
  "daily_joined native_example subdaily_example =
     Inr \<lparr>DATE_TIME_column = Some [Some (midnight 16071), Some (midnight 16072)],
          sensors = [(''PROBE1_VWC'', [Some 22, None]), (''COSMOS_VWC'', [Some 30, Some 32])]\<rparr>
   \<and> endswith ''PROBE1_VWC'' ''_VWC''"
proof -
  let ?w = "\<lparr>DATE_TIME_column = Some [Some (midnight 16071), Some (midnight 16072)],
          sensors = [(''PROBE1_VWC'', [Some 22, None]), (''COSMOS_VWC'', [Some 30, Some 32])]\<rparr>"
  have h: "daily_joined native_example subdaily_example = Inr ?w"
    by code_simp
  from aligned_column_invariant[OF h] h show ?thesis by auto
qed

section \<open>The Daily Aggregator: contract and repeated application\<close>

lemma set_index_daily_aggregate:
  "set (map (\<lambda>d. Some (midnight d)) (group_keys (map (map_option date_of) ts)))
     = {Some (midnight (date_of t)) | t. Some t \<in> set ts}"
proof -
  have "{d. Some d \<in> set (map (map_option date_of) ts)} = {date_of t | t. Some t \<in> set ts}"
    by (auto simp: image_iff) (metis map_option_eq_Some, force)
  then show ?thesis
    by (auto simp: set_group_keys)
qed

lemma cell_daily_aggregate:
  assumes ts: "date_time sub = Some (Datetimes ts)"
    and agg: "daily_aggregate sub = Inr agg"
    and t: "Some t \<in> set ts"
    and n: "endswith n ''_VWC''"
    and xs: "map_of (channels sub) n = Some xs"
  shows "cell (index agg) (columns agg) (Some (midnight (date_of t))) n
           = nanmean (map snd (filter (\<lambda>(t', x). map_option date_of t' = Some (date_of t))
                                 (zip ts xs)))"
proof -
  let ?ks = "map (map_option date_of) ts"
  let ?f = "\<lambda>d. nanmean (group_cells ?ks xs d)"
  from agg ts have idx: "index agg = map (\<lambda>d. Some (midnight d)) (group_keys ?ks)"
    and cols: "columns agg = groupby_mean ?ks
                 (filter (\<lambda>(n, xs). endswith n ''_VWC'') (channels sub))"
    by (simp_all add: daily_aggregate_Inr)
  have m: "map_of (columns agg) n = Some (map ?f (group_keys ?ks))"
    by (simp add: cols map_of_groupby_mean map_of_filter_names n xs)
  have "Some (date_of t) \<in> set ?ks"
    using t by (force simp: image_iff)
  then have d: "date_of t \<in> set (group_keys ?ks)"
    by (simp add: set_group_keys)
  have "inj (\<lambda>d. Some (midnight d))"
    by (rule injI) (simp add: inj_midnight)
  from map_of_zip_map_map[OF this d, of ?f]
  have "cell (index agg) (columns agg) (Some (midnight (date_of t))) n = ?f (date_of t)"
    by (simp add: cell_def m idx)
  then show ?thesis
    by (simp add: group_cells_map_key)
qed

text \<open>
  Claim C3. For a sub-daily table with a parsed \<open>DATE_TIME\<close> column the aggregator
  returns a table with one row per calendar date among the timestamps (no row twice,
  labelled with midnight of the date), whose columns are the channels ending in \<open>_VWC\<close>
  and no other. The cell of a \<open>_VWC\<close> channel on the date of a timestamp is the
  arithmetic mean of the non-missing cells of the channel in the rows of that date, and
  is missing when there is none.
\<close>

theorem daily_aggregate_contract:
  assumes "date_time sub = Some (Datetimes ts)"
  shows "\<exists>agg. daily_aggregate sub = Inr agg
       \<and> distinct (index agg)
       \<and> set (index agg) = {Some (midnight (date_of t)) | t. Some t \<in> set ts}
       \<and> rectangular (index agg) (columns agg)
       \<and> map fst (columns agg) = filter (\<lambda>n. endswith n ''_VWC'') (map fst (channels sub))
       \<and> (\<forall>t n xs. Some t \<in> set ts \<longrightarrow> endswith n ''_VWC'' \<longrightarrow>
              map_of (channels sub) n = Some xs \<longrightarrow>
              cell (index agg) (columns agg) (Some (midnight (date_of t))) n =
                (let obs = present (map snd (filter
                             (\<lambda>(t', x). map_option date_of t' = Some (date_of t)) (zip ts xs)))
                 in if obs = [] then None else Some (sum_list obs / of_nat (length obs))))"
proof -
  from assms obtain agg where agg: "daily_aggregate sub = Inr agg"
    by (auto simp: daily_aggregate_Inr)
  have "set (index agg) = {Some (midnight (date_of t)) | t. Some t \<in> set ts}"
    using agg assms set_index_daily_aggregate[of ts] by (simp add: daily_aggregate_Inr)
  moreover have "map fst (columns agg) = filter (\<lambda>n. endswith n ''_VWC'') (map fst (channels sub))"
    using daily_aggregate_names[OF agg] by (simp add: vwc_columns_def)
  moreover have "cell (index agg) (columns agg) (Some (midnight (date_of t))) n =
                (let obs = present (map snd (filter
                             (\<lambda>(t', x). map_option date_of t' = Some (date_of t)) (zip ts xs)))
                 in if obs = [] then None else Some (sum_list obs / of_nat (length obs)))"
    if "Some t \<in> set ts" "endswith n ''_VWC''" "map_of (channels sub) n = Some xs" for t n xs
    using cell_daily_aggregate[OF assms agg that] by (simp add: nanmean_def)
  ultimately show ?thesis
    using agg daily_aggregate_distinct_index[OF agg] daily_aggregate_rectangular[OF agg]
    by blast
qed

theorem daily_aggregate_contract_witness:
  "date_time subdaily_example =
     Some (Datetimes [Some (midnight 16071 + 1800000000000),
                      Some (midnight 16071 + 3600000000000), Some (midnight 16073)])
   \<and> daily_aggregate subdaily_example =
       Inr \<lparr>index = [Some (midnight 16071), Some (midnight 16073)],
            columns = [(''PROBE1_VWC'', [Some 22, Some 25])]\<rparr>
   \<and> cell [Some (midnight 16071), Some (midnight 16073)]
           [(''PROBE1_VWC'', [Some (22::rat), Some 25])] (Some (midnight 16071)) ''PROBE1_VWC''
       = Some 22"
proof -
  have h: "date_time subdaily_example =
     Some (Datetimes [Some (midnight 16071 + 1800000000000),
                      Some (midnight 16071 + 3600000000000), Some (midnight 16073)])"
    by (simp add: subdaily_example_def)
  have a: "daily_aggregate subdaily_example =
       Inr \<lparr>index = [Some (midnight 16071), Some (midnight 16073)],
            columns = [(''PROBE1_VWC'', [Some 22, Some 25])]\<rparr>"
    by code_simp
  have c: "cell [Some (midnight 16071), Some (midnight 16073)]
           [(''PROBE1_VWC'', [Some (22::rat), Some 25])] (Some (midnight 16071)) ''PROBE1_VWC''
       = Some 22"
    by code_simp
  from daily_aggregate_contract[OF h] obtain agg where "daily_aggregate subdaily_example = Inr agg"
    by (elim exE conjE)
  with a have "agg = \<lparr>index = [Some (midnight 16071), Some (midnight 16073)],
            columns = [(''PROBE1_VWC'', [Some 22, Some 25])]\<rparr>"
    by simp
  with h a c show ?thesis by simp
qed

subsection \<open>Aggregating a table that is already keyed by day\<close>

lemma group_cells_other_key:
  "d \<notin> set ds \<Longrightarrow> group_cells (map Some ds) xs d = []"
  by (auto simp: group_cells_def filter_empty_conv dest: set_zip_leftD)

lemma group_cells_own_row:
  "distinct ds \<Longrightarrow> length xs = length ds \<Longrightarrow>
     map (\<lambda>d. group_cells (map Some ds) xs d) ds = map (\<lambda>x. [x]) xs"
proof (induction ds arbitrary: xs)
  case Nil
  then show ?case by simp
next
  case (Cons d ds)
  then obtain x xs' where xs: "xs = x # xs'" "length xs' = length ds"
    by (cases xs) auto
  have head: "group_cells (map Some (d # ds)) xs d = [x]"
    using Cons.prems(1) group_cells_other_key[of d ds xs']
    by (simp add: xs group_cells_def)
  have tail: "map (\<lambda>d'. group_cells (map Some (d # ds)) xs d') ds
            = map (\<lambda>d'. group_cells (map Some ds) xs' d') ds"
    using Cons.prems(1) by (intro map_cong) (auto simp: xs group_cells_def)
  have ih: "map (\<lambda>d'. group_cells (map Some ds) xs' d') ds = map (\<lambda>x. [x]) xs'"
    using Cons.IH[of xs'] Cons.prems(1) xs(2) by simp
  have "map (\<lambda>d'. group_cells (map Some (d # ds)) xs d') (d # ds)
          = group_cells (map Some (d # ds)) xs d
            # map (\<lambda>d'. group_cells (map Some (d # ds)) xs d') ds"
    by (rule list.map(2))
  also have "\<dots> = [x] # map (\<lambda>x. [x]) xs'"
    by (simp only: head tail ih)
  also have "\<dots> = map (\<lambda>x. [x]) xs"
    by (simp add: xs)
  finally show ?case .
qed

lemma nanmean_single: "nanmean [x] = x"
  by (cases x) (simp_all add: nanmean_def)

lemma groupby_mean_own_rows:
  assumes "distinct ds" "sorted ds" "length xs = length ds"
  shows "map (\<lambda>d. nanmean (group_cells (map Some ds) xs d)) (group_keys (map Some ds)) = xs"
proof -
  have "map (\<lambda>d. nanmean (group_cells (map Some ds) xs d)) ds
          = map nanmean (map (\<lambda>d. group_cells (map Some ds) xs d) ds)"
    by (simp add: o_def)
  also have "\<dots> = map nanmean (map (\<lambda>x. [x]) xs)"
    by (simp only: group_cells_own_row[OF assms(1,3)])
  also have "\<dots> = xs"
    by (simp add: o_def nanmean_single)
  finally show ?thesis
    by (simp add: group_keys_sorted_distinct assms)
qed

lemma daily_aggregate_daily_keyed:
  assumes "sorted ds" "distinct ds"
    and idx: "index f = map (\<lambda>d. Some (midnight d)) ds"
    and vwc: "\<forall>(n, xs) \<in> set (columns f). endswith n ''_VWC''"
    and rect: "rectangular (index f) (columns f)"
  shows "daily_aggregate (daily_keyed_table f) = Inr f"
proof -
  have ks: "map (map_option date_of) (index f) = map Some ds"
    by (simp add: idx o_def)
  have keep: "filter (\<lambda>(n, xs). endswith n ''_VWC'') (columns f) = columns f"
    using vwc by (auto simp: filter_id_conv)
  have "groupby_mean (map Some ds) (columns f) = columns f"
    unfolding groupby_mean_def
  proof (rule map_idI)
    fix c assume c: "c \<in> set (columns f)"
    obtain n xs where nxs: "c = (n, xs)" by (cases c)
    with c rect have "length xs = length ds"
      by (auto simp: rectangular_def idx)
    then show "(case c of (n, xs) \<Rightarrow>
                 (n, map (\<lambda>d. nanmean (group_cells (map Some ds) xs d)) (group_keys (map Some ds)))) = c"
      by (simp add: nxs groupby_mean_own_rows assms(1,2))
  qed
  then have "daily_aggregate (daily_keyed_table f)
      = Inr \<lparr>index = map (\<lambda>d. Some (midnight d)) ds, columns = columns f\<rparr>"
    by (simp add: daily_aggregate_def daily_keyed_table_def ks keep
          group_keys_sorted_distinct assms(1,2))
  then show ?thesis by (simp add: idx[symmetric])
qed

lemma daily_aggregate_names_vwc:
  "daily_aggregate sub = Inr agg \<Longrightarrow> \<forall>(n, xs) \<in> set (columns agg). endswith n ''_VWC''"
proof -
  assume agg: "daily_aggregate sub = Inr agg"
  have "\<forall>n \<in> set (map fst (columns agg)). endswith n ''_VWC''"
    unfolding daily_aggregate_names[OF agg] by (simp add: vwc_columns_def)
  then show ?thesis by auto
qed

text \<open>
  Claim C7, as the code has it. The aggregator groups by the column \<open>DATE_TIME\<close> and
  returns its rows in ascending order of the date, labelled with midnight. A table keyed
  by day, with that key as its column \<open>DATE_TIME\<close>, comes back unchanged when its labels
  are midnights of strictly ascending days, its columns all end in \<open>_VWC\<close> and are as
  long as the index; the output of the aggregator is such a table.
\<close>

theorem daily_aggregate_idempotent:
  "(sorted ds \<and> distinct ds \<and> index f = map (\<lambda>d. Some (midnight d)) ds
      \<and> (\<forall>(n, xs) \<in> set (columns f). endswith n ''_VWC'')
      \<and> rectangular (index f) (columns f)
      \<longrightarrow> daily_aggregate (daily_keyed_table f) = Inr f)
   \<and> (daily_aggregate sub = Inr agg \<longrightarrow> daily_aggregate (daily_keyed_table agg) = Inr agg)"
proof (intro conjI impI)
  assume "sorted ds \<and> distinct ds \<and> index f = map (\<lambda>d. Some (midnight d)) ds
      \<and> (\<forall>(n, xs) \<in> set (columns f). endswith n ''_VWC'')
      \<and> rectangular (index f) (columns f)"
  then have "sorted ds" "distinct ds" "index f = map (\<lambda>d. Some (midnight d)) ds"
    "\<forall>(n, xs) \<in> set (columns f). endswith n ''_VWC''" "rectangular (index f) (columns f)"
    by blast+
  then show "daily_aggregate (daily_keyed_table f) = Inr f"
    by (rule daily_aggregate_daily_keyed)
next
  assume agg: "daily_aggregate sub = Inr agg"
  then obtain ts where
    "index agg = map (\<lambda>d. Some (midnight d)) (group_keys (map (map_option date_of) ts))"
    by (auto simp: daily_aggregate_Inr)
  then show "daily_aggregate (daily_keyed_table agg) = Inr agg"
    by (intro daily_aggregate_daily_keyed[of "group_keys (map (map_option date_of) ts)"]
          sorted_group_keys distinct_group_keys daily_aggregate_names_vwc[OF agg]
          daily_aggregate_rectangular[OF agg])
qed

theorem daily_aggregate_idempotent_witness:
  "daily_aggregate subdaily_example =
     Inr \<lparr>index = [Some (midnight 16071), Some (midnight 16073)],
          columns = [(''PROBE1_VWC'', [Some 22, Some 25])]\<rparr>
   \<and> daily_aggregate (daily_keyed_table
       \<lparr>index = [Some (midnight 16071), Some (midnight 16073)],
        columns = [(''PROBE1_VWC'', [Some 22, Some 25])]\<rparr>) =
     Inr \<lparr>index = [Some (midnight 16071), Some (midnight 16073)],
          columns = [(''PROBE1_VWC'', [Some 22, Some 25])]\<rparr>"
proof -
  let ?a = "\<lparr>index = [Some (midnight 16071), Some (midnight 16073)],
          columns = [(''PROBE1_VWC'', [Some (22::rat), Some 25])]\<rparr>"
  have a: "daily_aggregate subdaily_example = Inr ?a"
    by code_simp
  from daily_aggregate_idempotent[of "[16071, 16073]" ?a subdaily_example ?a] a
  show ?thesis by blast
qed

text \<open>
  Counterexample to claim C7 as stated: a table with one row per day and a single
  \<open>_VWC\<close> column, the later day first, comes back with its rows in the other order.
\<close>

theorem daily_aggregate_reorders_counterexample:
  "daily_aggregate (daily_keyed_table unsorted_daily_example) =
     Inr \<lparr>index = [Some (midnight 16071), Some (midnight 16072)],
          columns = [(''PROBE1_VWC'', [Some 22, Some 21])]\<rparr>
   \<and> daily_aggregate (daily_keyed_table unsorted_daily_example) \<noteq> Inr unsorted_daily_example"
  by code_simp

section \<open>The Reshaper\<close>

lemma melt_Inr:
  "melt w = Inr long \<longleftrightarrow>
     (\<exists>ts. DATE_TIME_column w = Some ts \<and>
        long = concat (map (\<lambda>(n, xs).
                 map (\<lambda>(t, x). \<lparr>DATE_TIME = t, Sensor = n, VWC = x\<rparr>) (zip ts xs))
               (sensors w)))"
  by (auto simp: melt_def split: option.splits)

subsection \<open>One record per cell\<close>

lemma length_concat_uniform:
  "\<forall>xs \<in> set xss. length xs = n \<Longrightarrow> length (concat xss) = length xss * n"
  by (induction xss) auto

lemma nth_concat_uniform:
  "\<forall>xs \<in> set xss. length xs = n \<Longrightarrow> j < length xss \<Longrightarrow> i < n \<Longrightarrow>
     concat xss ! (j * n + i) = xss ! j ! i"
proof (induction xss arbitrary: j)
  case Nil
  then show ?case by simp
next
  case (Cons xs xss)
  show ?case
  proof (cases j)
    case 0
    with Cons.prems show ?thesis by (simp add: nth_append)
  next
    case (Suc k)
    with Cons.prems have "concat xss ! (k * n + i) = xss ! k ! i"
      by (intro Cons.IH) auto
    moreover have "(xs @ concat xss) ! (n + (k * n + i)) = concat xss ! (k * n + i)"
      using Cons.prems(1) by (simp add: nth_append)
    ultimately show ?thesis
      by (simp add: Suc add.assoc)
  qed
qed

text \<open>
  Claim C2, as the code has it. \<open>pd.melt\<close> does not filter: for a table whose columns
  are as long as its \<open>DATE_TIME\<close> column, the long form has exactly one record per cell
  of the sensor columns, missing cells included (their record has a missing \<open>VWC\<close>). The
  records come column by column, each column in row order.
\<close>

theorem melt_one_record_per_cell:
  assumes "DATE_TIME_column w = Some ts"
    and "rectangular ts (sensors w)"
  shows "\<exists>long. melt w = Inr long
       \<and> length long = length (sensors w) * length ts
       \<and> (\<forall>j < length (sensors w). \<forall>i < length ts.
            long ! (j * length ts + i) =
              \<lparr>DATE_TIME = ts ! i, Sensor = fst (sensors w ! j),
               VWC = snd (sensors w ! j) ! i\<rparr>)"
proof -
  let ?F = "\<lambda>(n, xs). map (\<lambda>(t, x). \<lparr>DATE_TIME = t, Sensor = n, VWC = x\<rparr>) (zip ts xs)"
  let ?long = "concat (map ?F (sensors w))"
  have m: "melt w = Inr ?long"
    using assms(1) by (simp add: melt_Inr)
  have len: "\<forall>rs \<in> set (map ?F (sensors w)). length rs = length ts"
    using assms(2) by (auto simp: rectangular_def)
  have "length ?long = length (sensors w) * length ts"
    using length_concat_uniform[OF len] by simp
  moreover have "?long ! (j * length ts + i) =
              \<lparr>DATE_TIME = ts ! i, Sensor = fst (sensors w ! j),
               VWC = snd (sensors w ! j) ! i\<rparr>"
    if j: "j < length (sensors w)" and i: "i < length ts" for j i
  proof -
    obtain n xs where c: "sensors w ! j = (n, xs)" by (cases "sensors w ! j")
    with j have "(n, xs) \<in> set (sensors w)" by (metis nth_mem)
    with assms(2) have lx: "length xs = length ts" by (auto simp: rectangular_def)
    have "?long ! (j * length ts + i) = map ?F (sensors w) ! j ! i"
      using nth_concat_uniform[OF len _ i, of j] j by simp
    also have "\<dots> = ?F (n, xs) ! i"
      using j by (simp add: c)
    also have "\<dots> = \<lparr>DATE_TIME = ts ! i, Sensor = n, VWC = xs ! i\<rparr>"
      using i lx by simp
    finally show ?thesis by (simp add: c)
  qed
  ultimately show ?thesis using m by blast
qed

theorem melt_one_record_per_cell_witness:
  "melt \<lparr>DATE_TIME_column = Some [Some (midnight 16071), Some (midnight 16072)],
         sensors = [(''PROBE1_VWC'', [Some 22, None]), (''COSMOS_VWC'', [Some 30, Some 32])]\<rparr>
     = Inr [\<lparr>DATE_TIME = Some (midnight 16071), Sensor = ''PROBE1_VWC'', VWC = Some 22\<rparr>,
            \<lparr>DATE_TIME = Some (midnight 16072), Sensor = ''PROBE1_VWC'', VWC = None\<rparr>,
            \<lparr>DATE_TIME = Some (midnight 16071), Sensor = ''COSMOS_VWC'', VWC = Some 30\<rparr>,
            \<lparr>DATE_TIME = Some (midnight 16072), Sensor = ''COSMOS_VWC'', VWC = Some 32\<rparr>]
   \<and> rectangular [Some (midnight 16071), Some (midnight 16072)]
        [(''PROBE1_VWC'', [Some (22::rat), None]), (''COSMOS_VWC'', [Some 30, Some 32])]"
proof -
  let ?w = "\<lparr>DATE_TIME_column = Some [Some (midnight 16071), Some (midnight 16072)],
         sensors = [(''PROBE1_VWC'', [Some 22, None]), (''COSMOS_VWC'', [Some 30, Some 32])]\<rparr>"
  have t: "DATE_TIME_column ?w = Some [Some (midnight 16071), Some (midnight 16072)]"
    by simp
  have r: "rectangular [Some (midnight 16071), Some (midnight 16072)] (sensors ?w)"
    by (simp add: rectangular_def)
  from melt_one_record_per_cell[OF t r] obtain long where "melt ?w = Inr long"
    by (elim exE conjE)
  moreover have "melt ?w = Inr [\<lparr>DATE_TIME = Some (midnight 16071), Sensor = ''PROBE1_VWC'', VWC = Some 22\<rparr>,
            \<lparr>DATE_TIME = Some (midnight 16072), Sensor = ''PROBE1_VWC'', VWC = None\<rparr>,
            \<lparr>DATE_TIME = Some (midnight 16071), Sensor = ''COSMOS_VWC'', VWC = Some 30\<rparr>,
            \<lparr>DATE_TIME = Some (midnight 16072), Sensor = ''COSMOS_VWC'', VWC = Some 32\<rparr>]"
    by (simp add: melt_def)
  ultimately show ?thesis using r by simp
qed

text \<open>
  Counterexample to claim C2 as stated, in the scenario of the specification: the cell
  of \<open>PROBE1_VWC\<close> on 2014-01-02 is missing in the aligned table, and the long form has
  a record for it.
\<close>

theorem melt_keeps_missing_counterexample:
  "daily_joined native_example subdaily_example =
     Inr \<lparr>DATE_TIME_column = Some [Some (midnight 16071), Some (midnight 16072)],
          sensors = [(''PROBE1_VWC'', [Some 22, None]), (''COSMOS_VWC'', [Some 30, Some 32])]\<rparr>
   \<and> daily_joined_long native_example subdaily_example =
     Inr [\<lparr>DATE_TIME = Some (midnight 16071), Sensor = ''PROBE1_VWC'', VWC = Some 22\<rparr>,
          \<lparr>DATE_TIME = Some (midnight 16072), Sensor = ''PROBE1_VWC'', VWC = None\<rparr>,
          \<lparr>DATE_TIME = Some (midnight 16071), Sensor = ''COSMOS_VWC'', VWC = Some 30\<rparr>,
          \<lparr>DATE_TIME = Some (midnight 16072), Sensor = ''COSMOS_VWC'', VWC = Some 32\<rparr>]"
  by code_simp

subsection \<open>Pruning of missing columns\<close>

lemma melt_Sensor:
  assumes "melt w = Inr long" "r \<in> set long"
  shows "\<exists>xs. (Sensor r, xs) \<in> set (sensors w)"
proof -
  from assms(1) obtain ts where
    long: "long = concat (map (\<lambda>(n, xs).
                 map (\<lambda>(t, x). \<lparr>DATE_TIME = t, Sensor = n, VWC = x\<rparr>) (zip ts xs))
               (sensors w))"
    by (auto simp: melt_Inr)
  define F where "F = (\<lambda>(n :: string, xs :: rat option list).
                 map (\<lambda>(t, x). \<lparr>DATE_TIME = t, Sensor = n, VWC = x\<rparr>) (zip ts xs))"
  from long have "long = concat (map F (sensors w))"
    by (simp add: F_def)
  with assms(2) obtain c where c: "c \<in> set (sensors w)" and r: "r \<in> set (F c)"
    by auto
  obtain n xs where nxs: "c = (n, xs)" by (cases c)
  with r have "Sensor r = n" by (auto simp: F_def)
  with c nxs have "(Sensor r, xs) \<in> set (sensors w)" by simp
  then show ?thesis ..
qed

text \<open>
  Claim C5, as the code has it. \<open>dropna(axis=1, how='all')\<close> removes columns only. Of the
  joined table, every sensor column that is missing in every row is removed before the
  reshaping, so no long-form record names it; every column that is kept has a
  non-missing cell and is kept whole, and the rows stay as they are, a row whose sensor
  cells are all missing included.
\<close>

theorem all_missing_columns_removed:
  assumes "daily_joined_reset daily sub = Inr f"
    and "daily_joined_long daily sub = Inr long"
  shows "melt (dropna_columns f) = Inr long
       \<and> (\<forall>(n, xs) \<in> set (sensors (dropna_columns f)). any_notna xs \<and> (n, xs) \<in> set (sensors f))
       \<and> (\<forall>n. (\<forall>xs. (n, xs) \<in> set (sensors f) \<longrightarrow> \<not> any_notna xs) \<longrightarrow>
              (\<forall>r \<in> set long. Sensor r \<noteq> n))
       \<and> DATE_TIME_column (dropna_columns f) = DATE_TIME_column f"
proof -
  from assms have m: "melt (dropna_columns f) = Inr long"
    by (simp add: daily_joined_long_def daily_joined_def)
  then obtain ts where "DATE_TIME_column (dropna_columns f) = Some ts"
    by (auto simp: melt_Inr)
  then have rows: "DATE_TIME_column (dropna_columns f) = DATE_TIME_column f"
    using dropna_columns_DATE_TIME[of f ts] by simp
  have kept: "\<forall>(n, xs) \<in> set (sensors (dropna_columns f)). any_notna xs \<and> (n, xs) \<in> set (sensors f)"
    by (auto simp: sensors_dropna_columns)
  have "Sensor r \<noteq> n"
    if "\<forall>xs. (n, xs) \<in> set (sensors f) \<longrightarrow> \<not> any_notna xs" "r \<in> set long" for n r
  proof
    assume "Sensor r = n"
    with melt_Sensor[OF m that(2)] obtain xs where "(n, xs) \<in> set (sensors (dropna_columns f))"
      by auto
    with kept that(1) show False by auto
  qed
  with m rows kept show ?thesis by blast
qed

theorem all_missing_columns_removed_witness:
  "daily_joined_reset native_gap_example subdaily_example =
     Inr \<lparr>DATE_TIME_column = Some [Some (midnight 16071), Some (midnight 16072)],
          sensors = [(''PROBE1_VWC'', [Some 22, None]), (''COSMOS_VWC'', [Some 30, None])]\<rparr>
   \<and> melt (dropna_columns
        \<lparr>DATE_TIME_column = Some [Some (midnight 16071), Some (midnight 16072)],
         sensors = [(''PROBE1_VWC'', [Some 22, None]), (''COSMOS_VWC'', [Some 30, None])]\<rparr>)
     = Inr [\<lparr>DATE_TIME = Some (midnight 16071), Sensor = ''PROBE1_VWC'', VWC = Some 22\<rparr>,
          \<lparr>DATE_TIME = Some (midnight 16072), Sensor = ''PROBE1_VWC'', VWC = None\<rparr>,
          \<lparr>DATE_TIME = Some (midnight 16071), Sensor = ''COSMOS_VWC'', VWC = Some 30\<rparr>,
          \<lparr>DATE_TIME = Some (midnight 16072), Sensor = ''COSMOS_VWC'', VWC = None\<rparr>]"
proof -
  have r: "daily_joined_reset native_gap_example subdaily_example =
     Inr \<lparr>DATE_TIME_column = Some [Some (midnight 16071), Some (midnight 16072)],
          sensors = [(''PROBE1_VWC'', [Some 22, None]), (''COSMOS_VWC'', [Some 30, None])]\<rparr>"
    by code_simp
  have l: "daily_joined_long native_gap_example subdaily_example =
     Inr [\<lparr>DATE_TIME = Some (midnight 16071), Sensor = ''PROBE1_VWC'', VWC = Some 22\<rparr>,
          \<lparr>DATE_TIME = Some (midnight 16072), Sensor = ''PROBE1_VWC'', VWC = None\<rparr>,
          \<lparr>DATE_TIME = Some (midnight 16071), Sensor = ''COSMOS_VWC'', VWC = Some 30\<rparr>,
          \<lparr>DATE_TIME = Some (midnight 16072), Sensor = ''COSMOS_VWC'', VWC = None\<rparr>]"
    by code_simp
  from all_missing_columns_removed[OF r l] r show ?thesis by (elim conjE) (rule conjI)
qed

text \<open>
  Counterexample to claim C5 as stated: on 2014-01-02 the native table has no
  \<open>COSMOS_VWC\<close> value and the aggregate has no row, so the row of the joined table is
  missing in every sensor column; it is still a row of the table that is reshaped, and
  the long form has its two records.
\<close>

theorem all_missing_row_kept_counterexample:
  "daily_joined native_gap_example subdaily_example =
     Inr \<lparr>DATE_TIME_column = Some [Some (midnight 16071), Some (midnight 16072)],
          sensors = [(''PROBE1_VWC'', [Some 22, None]), (''COSMOS_VWC'', [Some 30, None])]\<rparr>
   \<and> daily_joined_long native_gap_example subdaily_example =
     Inr [\<lparr>DATE_TIME = Some (midnight 16071), Sensor = ''PROBE1_VWC'', VWC = Some 22\<rparr>,
          \<lparr>DATE_TIME = Some (midnight 16072), Sensor = ''PROBE1_VWC'', VWC = None\<rparr>,
          \<lparr>DATE_TIME = Some (midnight 16071), Sensor = ''COSMOS_VWC'', VWC = Some 30\<rparr>,
          \<lparr>DATE_TIME = Some (midnight 16072), Sensor = ''COSMOS_VWC'', VWC = None\<rparr>]"
  by code_simp

subsection \<open>Re-widening the long form\<close>

lemma find_append_cases:
  "find P (xs @ ys) = (case find P xs of None \<Rightarrow> find P ys | Some r \<Rightarrow> Some r)"
  by (induction xs) auto

lemma find_column_records:
  "find (\<lambda>r. DATE_TIME r = t \<and> Sensor r = n)
        (map (\<lambda>(t', x). \<lparr>DATE_TIME = t', Sensor = m, VWC = x\<rparr>) ps)
     = (if m = n
        then map_option (\<lambda>x. \<lparr>DATE_TIME = t, Sensor = m, VWC = x\<rparr>) (map_of ps t)
        else None)"
  by (induction ps) auto

lemma rewiden_concat_columns:
  assumes "rectangular ts cols"
  shows "rewiden (concat (map (\<lambda>(n, xs).
                   map (\<lambda>(t, x). \<lparr>DATE_TIME = t, Sensor = n, VWC = x\<rparr>) (zip ts xs)) cols)) t n
           = cell ts cols t n"
  using assms
proof (induction cols)
  case Nil
  then show ?case by (simp add: rewiden_def cell_def)
next
  case (Cons c cols)
  obtain m xs where c: "c = (m, xs)" by (cases c)
  from Cons.prems have len: "length xs = length ts" and rect: "rectangular ts cols"
    by (auto simp: rectangular_def c)
  note ih = Cons.IH[OF rect]
  show ?case
  proof (cases "m = n")
    case False
    then show ?thesis
      using ih by (simp add: c rewiden_def cell_def find_append_cases find_column_records)
  next
    case True
    show ?thesis
    proof (cases "map_of (zip ts xs) t")
      case None
      then have "t \<notin> set ts"
        using len by (simp add: map_of_zip_is_None)
      then have "cell ts cols t n = None" "cell ts (c # cols) t n = None"
        by (simp_all add: cell_notin_index)
      with ih None True show ?thesis
        by (simp add: c rewiden_def find_append_cases find_column_records)
    next
      case (Some x)
      with True show ?thesis
        by (simp add: c rewiden_def cell_def find_append_cases find_column_records)
    qed
  qed
qed

lemma map_of_filter_cells:
  "distinct (map fst cols) \<Longrightarrow>
     map_of (filter (\<lambda>(n, xs). Q xs) cols) n
       = (case map_of cols n of None \<Rightarrow> None | Some xs \<Rightarrow> if Q xs then Some xs else None)"
proof (induction cols)
  case Nil
  then show ?case by simp
next
  case (Cons c cols)
  obtain m xs where c: "c = (m, xs)" by (cases c)
  from Cons.prems have "map_of cols m = None"
    by (simp add: c map_of_eq_None_iff)
  with Cons show ?case
    by (auto simp: c)
qed

lemma cell_dropna:
  assumes "distinct (map fst cols)"
  shows "cell ts (filter (\<lambda>(n, xs). any_notna xs) cols) t n = cell ts cols t n"
proof (cases "map_of cols n")
  case None
  then show ?thesis
    by (simp add: cell_def map_of_filter_cells[OF assms])
next
  case (Some xs)
  show ?thesis
  proof (cases "any_notna xs")
    case True
    with Some show ?thesis
      by (simp add: cell_def map_of_filter_cells[OF assms])
  next
    case False
    have "x = None" if "map_of (zip ts xs) t = Some x" for x
    proof -
      from that have "(t, x) \<in> set (zip ts xs)" by (rule map_of_SomeD)
      then have "x \<in> set xs" by (rule set_zip_rightD)
      with False show ?thesis by (auto simp: any_notna_def)
    qed
    then have "(case map_of (zip ts xs) t of None \<Rightarrow> None | Some x \<Rightarrow> x) = None"
      by (cases "map_of (zip ts xs) t") auto
    with Some False show ?thesis
      by (simp add: cell_def map_of_filter_cells[OF assms])
  qed
qed

lemma cell_nth:
  assumes "distinct ts" "distinct (map fst cols)" "(n, xs) \<in> set cols"
    and "length xs = length ts" "i < length ts"
  shows "cell ts cols (ts ! i) n = xs ! i"
proof -
  from assms(2,3) have "map_of cols n = Some xs" by simp
  moreover from assms(1,4,5) have "map_of (zip ts xs) (ts ! i) = Some (xs ! i)"
    using map_of_zip_nth[of ts xs i] by simp
  ultimately show ?thesis by (simp add: cell_def)
qed

text \<open>
  Claim C6. Let the joined table have a \<open>DATE_TIME\<close> column without repeated
  timestamps, sensor columns with distinct names, all as long as \<open>DATE_TIME\<close>, and let
  the Reshaper produce the long form of it (after \<open>dropna\<close>). Re-widening the long form
  by the pair (timestamp, sensor) gives back the table: at every timestamp and name it
  is the cell of the table, so every cell of the table is recovered, the non-missing
  ones with their values; a column that \<open>dropna\<close> removed was missing in every row and
  re-widens to missing cells.
\<close>

theorem rewiden_melt_roundtrip:
  assumes "DATE_TIME_column f = Some ts"
    and "distinct ts"
    and "distinct (map fst (sensors f))"
    and "rectangular ts (sensors f)"
    and "melt (dropna_columns f) = Inr long"
  shows "(\<forall>t n. rewiden long t n = cell ts (sensors f) t n)
       \<and> (\<forall>(n, xs) \<in> set (sensors f). \<forall>i < length ts. rewiden long (ts ! i) n = xs ! i)"
proof -
  let ?kept = "filter (\<lambda>(n, xs). any_notna xs) (sensors f)"
  from assms(5) obtain ts' where ts': "DATE_TIME_column (dropna_columns f) = Some ts'"
    and long: "long = concat (map (\<lambda>(n, xs).
                 map (\<lambda>(t, x). \<lparr>DATE_TIME = t, Sensor = n, VWC = x\<rparr>) (zip ts' xs))
               (sensors (dropna_columns f)))"
    by (auto simp: melt_Inr)
  from dropna_columns_DATE_TIME[OF ts'] assms(1) have eq: "ts' = ts" by simp
  have rect: "rectangular ts ?kept"
    using assms(4) by (auto simp: rectangular_def)
  have all: "rewiden long t n = cell ts (sensors f) t n" for t n
    using rewiden_concat_columns[OF rect, of t n]
    by (simp add: long eq sensors_dropna_columns cell_dropna[OF assms(3)])
  have "rewiden long (ts ! i) n = xs ! i"
    if "(n, xs) \<in> set (sensors f)" "i < length ts" for n xs i
  proof -
    from that(1) assms(4) have "length xs = length ts"
      by (auto simp: rectangular_def)
    from cell_nth[OF assms(2,3) that(1) this that(2)] show ?thesis
      by (simp add: all)
  qed
  with all show ?thesis by blast
qed

theorem rewiden_melt_roundtrip_witness:
  "melt (dropna_columns
      \<lparr>DATE_TIME_column = Some [Some (midnight 16071), Some (midnight 16072)],
       sensors = [(''PROBE1_VWC'', [None, None]), (''COSMOS_VWC'', [Some 30, Some 32])]\<rparr>)
     = Inr [\<lparr>DATE_TIME = Some (midnight 16071), Sensor = ''COSMOS_VWC'', VWC = Some 30\<rparr>,
            \<lparr>DATE_TIME = Some (midnight 16072), Sensor = ''COSMOS_VWC'', VWC = Some 32\<rparr>]
   \<and> rewiden [\<lparr>DATE_TIME = Some (midnight 16071), Sensor = ''COSMOS_VWC'', VWC = Some 30\<rparr>,
              \<lparr>DATE_TIME = Some (midnight 16072), Sensor = ''COSMOS_VWC'', VWC = Some 32\<rparr>]
        (Some (midnight 16072)) ''COSMOS_VWC''
     = cell [Some (midnight 16071), Some (midnight 16072)]
         [(''PROBE1_VWC'', [None, None]), (''COSMOS_VWC'', [Some 30, Some 32])]
         (Some (midnight 16072)) ''COSMOS_VWC''
   \<and> cell [Some (midnight 16071), Some (midnight 16072)]
         [(''PROBE1_VWC'', [None, None]), (''COSMOS_VWC'', [Some (30::rat), Some 32])]
         (Some (midnight 16072)) ''COSMOS_VWC'' = Some 32"
proof -
  let ?ts = "[Some (midnight 16071), Some (midnight 16072)]"
  let ?f = "\<lparr>DATE_TIME_column = Some ?ts,
       sensors = [(''PROBE1_VWC'', [None, None]), (''COSMOS_VWC'', [Some (30::rat), Some 32])]\<rparr>"
  let ?long = "[\<lparr>DATE_TIME = Some (midnight 16071), Sensor = ''COSMOS_VWC'', VWC = Some 30\<rparr>,
            \<lparr>DATE_TIME = Some (midnight 16072), Sensor = ''COSMOS_VWC'', VWC = Some 32\<rparr>]"
  have a: "DATE_TIME_column ?f = Some ?ts" by simp
  have b: "distinct ?ts" by (simp add: inj_midnight)
  have c: "distinct (map fst (sensors ?f))" by simp
  have d: "rectangular ?ts (sensors ?f)" by (simp add: rectangular_def)
  have e: "melt (dropna_columns ?f) = Inr ?long"
    by (simp add: melt_def dropna_columns_def any_notna_def)
  have v: "cell ?ts (sensors ?f) (Some (midnight 16072)) ''COSMOS_VWC'' = Some 32"
    by (simp add: cell_def inj_midnight)
  from rewiden_melt_roundtrip[OF a b c d e]
  have "rewiden ?long (Some (midnight 16072)) ''COSMOS_VWC''
          = cell ?ts (sensors ?f) (Some (midnight 16072)) ''COSMOS_VWC''"
    by (elim conjE allE)
  with e v show ?thesis by simp
qed

section \<open>Failure of the aggregator\<close>

lemma daily_aggregate_error_cases:
  "daily_aggregate sub = Inl e \<longleftrightarrow>
     (date_time sub = None \<and> e = KeyError) \<or>
     ((\<exists>cells. date_time sub = Some (Objects cells)) \<and> e = AttributeError)"
proof (cases "date_time sub")
  case None
  then show ?thesis by (auto simp: daily_aggregate_def)
next
  case (Some c)
  then show ?thesis by (cases c) (auto simp: daily_aggregate_def)
qed

lemma read_Inr:
  "read cat res s = Inr fr \<longleftrightarrow> cat (s, res) = Some fr \<and> date_time (content fr) \<noteq> None"
  by (auto simp: read_def split: option.splits)

lemma read_other_resolution:
  "res \<noteq> res' \<Longrightarrow> read (cat((s, res') \<mapsto> fr)) res s = read cat res s"
  by (simp add: read_def)

text \<open>
  Claim C9, as the code has it. The aggregator validates nothing. It raises exactly when
  the column \<open>DATE_TIME\<close> of the sub-daily table is not a datetime column: the accessor
  \<open>.dt\<close> raises \<open>AttributeError\<close> on an object column, whether a cell of it did not parse
  or the column is empty, and a table without the column gives \<open>KeyError\<close>. A table
  without the column does not come out of the catalogue: its read raises \<open>ValueError\<close>.
  For a station whose daily table has been read and indexed and whose sub-daily table
  has an object column \<open>DATE_TIME\<close>, the \<open>AttributeError\<close> is the result of the callback:
  nothing catches or retries it.
\<close>

theorem daily_aggregate_raises_without_datetimes:
  "((\<exists>e. daily_aggregate sub = Inl e) \<longleftrightarrow> (\<forall>ts. date_time sub \<noteq> Some (Datetimes ts)))
   \<and> (date_time sub = Some (Objects cells) \<longrightarrow> daily_aggregate sub = Inl AttributeError)
   \<and> (date_time sub = None \<longrightarrow> daily_aggregate sub = Inl KeyError)
   \<and> (cat (s, SH) = Some fr \<and> date_time (content fr) = None \<longrightarrow>
        read cat SH s = Inl ValueError)
   \<and> (read cat Daily s = Inr d \<and> daily_indexed (content d) = Inr di
        \<and> cat (s, SH) = Some fr \<and> date_time (content fr) = Some (Objects cells) \<longrightarrow>
        fst (site_daily shared cat s) = Inl AttributeError)"
proof (intro conjI impI)
  show "(\<exists>e. daily_aggregate sub = Inl e) \<longleftrightarrow> (\<forall>ts. date_time sub \<noteq> Some (Datetimes ts))"
  proof (cases "date_time sub")
    case None
    then show ?thesis by (simp add: daily_aggregate_error_cases)
  next
    case (Some c)
    then show ?thesis by (cases c) (simp_all add: daily_aggregate_error_cases)
  qed
  show "daily_aggregate sub = Inl AttributeError" if "date_time sub = Some (Objects cells)"
    using that by (simp add: daily_aggregate_error_cases)
  show "daily_aggregate sub = Inl KeyError" if "date_time sub = None"
    using that by (simp add: daily_aggregate_error_cases)
  show "read cat SH s = Inl ValueError"
    if "cat (s, SH) = Some fr \<and> date_time (content fr) = None"
    using that by (simp add: read_def)
  show "fst (site_daily shared cat s) = Inl AttributeError"
    if h: "read cat Daily s = Inr d \<and> daily_indexed (content d) = Inr di
        \<and> cat (s, SH) = Some fr \<and> date_time (content fr) = Some (Objects cells)"
  proof -
    let ?cat1 = "if shared then cat((s, Daily) \<mapsto> d\<lparr>row_index := Some (index di)\<rparr>) else cat"
    from h have "read cat SH s = Inr fr"
      by (simp add: read_Inr)
    then have r: "read ?cat1 SH s = Inr fr"
      by (simp add: read_other_resolution)
    from h have a: "daily_aggregate (content fr) = Inl AttributeError"
      by (simp add: daily_aggregate_error_cases)
    from h have "daily_joined_long (content d) (content fr) = Inl AttributeError"
      by (simp add: daily_joined_long_def daily_joined_def daily_joined_reset_def a)
    with h r show ?thesis
      by (simp add: site_daily_def Let_def)
  qed
qed

theorem daily_aggregate_raises_without_datetimes_witness:
  "daily_aggregate unparsed_example = Inl AttributeError
   \<and> fst (site_daily True
        (\<lambda>k. if k = (''CHIMN'', Daily) then Some \<lparr>content = native_example, row_index = None\<rparr>
             else if k = (''CHIMN'', SH) then Some \<lparr>content = unparsed_example, row_index = None\<rparr>
             else None)
        ''CHIMN'') = Inl AttributeError"
proof -
  let ?d = "\<lparr>content = native_example, row_index = None\<rparr>"
  let ?fr = "\<lparr>content = unparsed_example, row_index = None\<rparr>"
  let ?cat = "\<lambda>k. if k = (''CHIMN'', Daily) then Some ?d
             else if k = (''CHIMN'', SH) then Some ?fr else None"
  let ?cells = "[Text_date (midnight 16071), Text_other ''yesterday'']"
  let ?di = "\<lparr>index = [Some (midnight 16071), Some (midnight 16072)],
             columns = [(''COSMOS_VWC'', [Some (30::rat), Some 32])]\<rparr>"
  note t = daily_aggregate_raises_without_datetimes
             [of unparsed_example ?cells ?cat "''CHIMN''" ?fr ?d ?di True]
  have o: "date_time unparsed_example = Some (Objects ?cells)"
    by (simp add: unparsed_example_def)
  have r: "read ?cat Daily ''CHIMN'' = Inr ?d"
    by (simp add: read_def native_example_def)
  have i: "daily_indexed (content ?d) = Inr ?di"
    by (simp add: daily_indexed_def native_example_def)
  have c: "?cat (''CHIMN'', SH) = Some ?fr"
    by simp
  have o': "date_time (content ?fr) = Some (Objects ?cells)"
    by (simp add: unparsed_example_def)
  from t o have "daily_aggregate unparsed_example = Inl AttributeError"
    by (elim conjE) (erule mp)
  moreover from t r i c o' have "fst (site_daily True ?cat ''CHIMN'') = Inl AttributeError"
    by (elim conjE) (erule mp, intro conjI)
  ultimately show ?thesis by (rule conjI)
qed

text \<open>
  Counterexample to claim C9 as stated: the sub-daily file with a header and no rows has
  the column \<open>DATE_TIME\<close>, and no cell of it is unparsable; the aggregator raises
  \<open>AttributeError\<close> on it all the same.
\<close>

theorem header_only_counterexample:
  "daily_aggregate header_only_example = Inl AttributeError
   \<and> date_time header_only_example = Some (Objects [])
   \<and> \<not> unparsable (Objects [])"
  by (simp add: daily_aggregate_def header_only_example_def unparsable_def)

section \<open>Statelessness of the callback\<close>

lemma same_tables_refl: "same_tables c c"
  by (simp add: same_tables_def)

lemma same_tables_trans: "same_tables a b \<Longrightarrow> same_tables b c \<Longrightarrow> same_tables a c"
  by (simp add: same_tables_def)

lemma same_tables_sym: "same_tables a b \<Longrightarrow> same_tables b a"
  by (simp add: same_tables_def)

lemma same_tables_assign_index:
  assumes "cat k = Some fr"
  shows "same_tables cat (cat(k \<mapsto> fr\<lparr>row_index := ix\<rparr>))"
  using assms by (simp add: same_tables_def)

text \<open>A call leaves the tables of the catalogue as they are; with shared frames it
  leaves the index of line 568 on the daily frame of the station.\<close>

lemma site_daily_same_tables: "same_tables cat (snd (site_daily shared cat s))"
proof (cases "read cat Daily s")
  case (Inl e)
  then show ?thesis by (simp add: site_daily_def same_tables_refl)
next
  case (Inr d)
  then have k: "cat (s, Daily) = Some d" by (simp add: read_Inr)
  show ?thesis
  proof (cases "daily_indexed (content d)")
    case (Inl e)
    with Inr show ?thesis by (simp add: site_daily_def same_tables_refl)
  next
    case di: (Inr di)
    let ?cat1 = "if shared then cat((s, Daily) \<mapsto> d\<lparr>row_index := Some (index di)\<rparr>) else cat"
    have "snd (site_daily shared cat s) = ?cat1"
      using Inr di by (simp add: site_daily_def Let_def split: sum.splits)
    moreover have "same_tables cat ?cat1"
      using same_tables_assign_index[of cat "(s, Daily)" d "Some (index di)", OF k]
      by (simp add: same_tables_refl)
    ultimately show ?thesis by simp
  qed
qed

lemma selections_same_tables: "same_tables cat (selections shared cat stations)"
proof (induction stations arbitrary: cat)
  case Nil
  then show ?case by (simp add: selections_def same_tables_refl)
next
  case (Cons s stations)
  have "selections shared cat (s # stations)
          = selections shared (snd (site_daily shared cat s)) stations"
    by (simp add: selections_def)
  with Cons.IH[of "snd (site_daily shared cat s)"] site_daily_same_tables[of cat shared s]
  show ?case by (auto intro: same_tables_trans)
qed

text \<open>The tables that \<open>read()\<close> delivers, whatever index their frames carry.\<close>

lemma read_same_tables:
  assumes "same_tables c1 c2"
  shows "map_sum id content (read c1 res s) = map_sum id content (read c2 res s)"
proof -
  from assms have "map_option content (c1 (s, res)) = map_option content (c2 (s, res))"
    by (simp add: same_tables_def)
  then show ?thesis
    by (cases "c1 (s, res)"; cases "c2 (s, res)") (auto simp: read_def split: option.splits)
qed

text \<open>The records of a call are computed from the two tables of the station alone.\<close>

lemma fst_site_daily:
  "fst (site_daily shared cat s) =
     (case map_sum id content (read cat Daily s) of
        Inl e \<Rightarrow> Inl e
      | Inr daily \<Rightarrow>
          (case daily_indexed daily of
             Inl e \<Rightarrow> Inl e
           | Inr di \<Rightarrow>
               (case map_sum id content (read cat SH s) of
                  Inl e \<Rightarrow> Inl e
                | Inr sub \<Rightarrow> daily_joined_long daily sub)))"
proof (cases "read cat Daily s")
  case (Inl e)
  then show ?thesis by (simp add: site_daily_def)
next
  case (Inr d)
  show ?thesis
  proof (cases "daily_indexed (content d)")
    case (Inl e)
    with Inr show ?thesis by (simp add: site_daily_def)
  next
    case di: (Inr di)
    have "read (if shared then cat((s, Daily) \<mapsto> d\<lparr>row_index := Some (index di)\<rparr>) else cat) SH s
            = read cat SH s"
      by (simp add: read_other_resolution)
    with Inr di show ?thesis
      by (cases "read cat SH s") (simp_all add: site_daily_def Let_def)
  qed
qed

lemma site_daily_cong:
  assumes "same_tables c1 c2"
  shows "fst (site_daily shared c1 s) = fst (site_daily shared c2 s)"
  by (simp only: fst_site_daily read_same_tables[OF assms])

text \<open>
  Claim C8. The records that \<open>site_daily\<close> computes for a station depend on the tables of
  that station only, and a call changes no table: it leaves at most the index of line
  568 on the daily frame, which the next call for the station assigns again before it
  reads it. So after selecting station A, any selections in between, whether the
  catalogue shares its frames or copies them, selecting A again gives the records of
  the first time.
\<close>

theorem site_daily_selection_independent:
  "fst (site_daily shared (selections shared (snd (site_daily shared cat a)) stations) a)
     = fst (site_daily shared cat a)"
proof -
  have "same_tables cat (snd (site_daily shared cat a))"
    by (rule site_daily_same_tables)
  moreover have "same_tables (snd (site_daily shared cat a))
                   (selections shared (snd (site_daily shared cat a)) stations)"
    by (rule selections_same_tables)
  ultimately have "same_tables cat (selections shared (snd (site_daily shared cat a)) stations)"
    by (rule same_tables_trans)
  then show ?thesis
    by (rule site_daily_cong[symmetric])
qed

theorem site_daily_selection_independent_witness:
  "snd (site_daily True catalog_example ''CHIMN'') (''CHIMN'', Daily) =
     Some \<lparr>content = native_example,
           row_index = Some [Some (midnight 16071), Some (midnight 16072)]\<rparr>
   \<and> fst (site_daily True
        (selections True (snd (site_daily True catalog_example ''CHIMN'')) [''SHEEP''])
        ''CHIMN'') =
     Inr [\<lparr>DATE_TIME = Some (midnight 16071), Sensor = ''PROBE1_VWC'', VWC = Some 22\<rparr>,
          \<lparr>DATE_TIME = Some (midnight 16072), Sensor = ''PROBE1_VWC'', VWC = None\<rparr>,
          \<lparr>DATE_TIME = Some (midnight 16071), Sensor = ''COSMOS_VWC'', VWC = Some 30\<rparr>,
          \<lparr>DATE_TIME = Some (midnight 16072), Sensor = ''COSMOS_VWC'', VWC = Some 32\<rparr>]"
proof -
  have s: "snd (site_daily True catalog_example ''CHIMN'') (''CHIMN'', Daily) =
     Some \<lparr>content = native_example,
           row_index = Some [Some (midnight 16071), Some (midnight 16072)]\<rparr>"
    by (simp add: site_daily_def read_def catalog_example_def daily_indexed_def
          native_example_def subdaily_example_def Let_def)
  have f: "fst (site_daily True catalog_example ''CHIMN'') =
     Inr [\<lparr>DATE_TIME = Some (midnight 16071), Sensor = ''PROBE1_VWC'', VWC = Some 22\<rparr>,
          \<lparr>DATE_TIME = Some (midnight 16072), Sensor = ''PROBE1_VWC'', VWC = None\<rparr>,
          \<lparr>DATE_TIME = Some (midnight 16071), Sensor = ''COSMOS_VWC'', VWC = Some 30\<rparr>,
          \<lparr>DATE_TIME = Some (midnight 16072), Sensor = ''COSMOS_VWC'', VWC = Some 32\<rparr>]"
    by code_simp
  from site_daily_selection_independent[of True catalog_example "''CHIMN''" "[''SHEEP'']"] f s
  show ?thesis by simp
qed

end
